theory Spec2Isabelle
  imports Complex_Main
begin

section \<open>Python values\<close>

text \<open>
  A Python \<open>str\<close> is a sequence of code points and \<open>len\<close> counts code points. It is
  modelled as a \<open>string\<close> whose characters are the code points 0..255; code points above
  255 are outside the model. A finite Python \<open>float\<close> is modelled as the rational
  number it denotes (\<open>rat\<close>). The Chunker's arithmetic on times, one division and one
  addition for each chunk, is modelled as exact. The arithmetic of the Citation Resolver
  is modelled with the rounding, the infinities and the exceptions of float arithmetic
  (section Floating-point numbers). Counters and lengths are \<open>nat\<close>, the configurable
  limit \<open>max_chars\<close> is an \<open>int\<close>.
\<close>

type_synonym pyfloat = rat

datatype py_error =
  IndexError | KeyError | JSONDecodeError | OverflowError | ValueError | OSError
  | ZeroDivisionError

text \<open>\<open>str.isspace\<close> on the code points 0..255: TAB..CR, FS..US, SPACE, NEL, NBSP.
  The regular expression class \<open>\s\<close> of \<open>re\<close> on a \<open>str\<close> pattern is the same set.\<close>

definition is_space :: "char \<Rightarrow> bool" where
  "is_space c =
     (let n = (of_char c :: nat)
      in (9 \<le> n \<and> n \<le> 13) \<or> (28 \<le> n \<and> n \<le> 32) \<or> n = 133 \<or> n = 160)"

text \<open>\<open>s.strip()\<close>\<close>

definition strip :: "string \<Rightarrow> string" where
  "strip s = rev (dropWhile is_space (rev (dropWhile is_space s)))"

text \<open>\<open>sep.join(xs)\<close>\<close>

fun str_join :: "string \<Rightarrow> string list \<Rightarrow> string" where
  "str_join sep [] = []"
| "str_join sep [x] = x"
| "str_join sep (x # y # ys) = x @ sep @ str_join sep (y # ys)"

text \<open>The character class \<open>[.!?]\<close> of the sentence boundary.\<close>

definition is_terminal :: "char \<Rightarrow> bool" where
  "is_terminal c = (c = CHR ''.'' \<or> c = CHR ''!'' \<or> c = CHR ''?'')"

text \<open>
  \<open>re.split(r'(?<=[.!?])\s+', block_text)\<close>, as a scan from left to right. A match starts
  at a whitespace character that directly follows one of \<open>.!?\<close> and takes the whole
  whitespace run (\<open>\s+\<close> is greedy); the pieces between the matches are returned, the
  last one also when it is empty. The scanner is in \<open>InText\<close> after an ordinary
  character, in \<open>AfterTerminal\<close> right after one of \<open>.!?\<close>, and in \<open>InSeparator\<close>
  while it consumes a match.
\<close>

datatype scan_mode = InText | AfterTerminal | InSeparator

fun re_split_scan :: "scan_mode \<Rightarrow> string \<Rightarrow> string \<Rightarrow> string list" where
  "re_split_scan m cur [] = [cur]"
| "re_split_scan InSeparator cur (c # cs) =
     (if is_space c then re_split_scan InSeparator cur cs
      else re_split_scan (if is_terminal c then AfterTerminal else InText) (cur @ [c]) cs)"
| "re_split_scan AfterTerminal cur (c # cs) =
     (if is_space c then cur # re_split_scan InSeparator [] cs
      else re_split_scan (if is_terminal c then AfterTerminal else InText) (cur @ [c]) cs)"
| "re_split_scan InText cur (c # cs) =
     re_split_scan (if is_terminal c then AfterTerminal else InText) (cur @ [c]) cs"

definition re_split_sentences :: "string \<Rightarrow> string list" where
  "re_split_sentences block_text = re_split_scan InText [] block_text"

section \<open>Floating-point numbers\<close>

text \<open>
  Python's \<open>float\<close> is the binary64 format of IEEE 754: the finite values are \<open>0\<close> and
  \<open>\<plusminus> m * 2^e\<close> with \<open>m < 2^53\<close> and \<open>-1074 \<le> e\<close>, below \<open>2^1024\<close> in size, and
  there are two infinities and the value \<open>nan\<close>. A finite float is kept here as the
  rational number it denotes; the two zeros are one, which no operation used below tells
  apart. Every arithmetic operation gives the float nearest to the exact result, the one
  with the even significand when two are equally near, and an infinity when that float
  would be \<open>2^1024\<close> or more in size.
\<close>

text \<open>\<open>int.bit_length\<close>, for positive integers.\<close>

function bit_length :: "int \<Rightarrow> nat" where
  "bit_length n = (if n \<le> 0 then 0 else Suc (bit_length (n div 2)))"
  by pat_completeness auto
termination by (relation "measure nat") auto

declare bit_length.simps [simp del]

definition pow2 :: "int \<Rightarrow> rat" where
  "pow2 k = 2 powi k"

text \<open>The binary exponent of a positive rational \<open>x\<close>: the \<open>k\<close> with
  \<open>2^k \<le> x < 2^(k+1)\<close>.\<close>

definition ilog2 :: "rat \<Rightarrow> int" where
  "ilog2 x =
     (let k = int (bit_length (fst (quotient_of x))) - int (bit_length (snd (quotient_of x)))
      in if pow2 k \<le> x then k else k - 1)"

text \<open>The nearest integer, the even one of two that are equally near.\<close>

definition round_half_even :: "rat \<Rightarrow> int" where
  "round_half_even y =
     (let f = \<lfloor>y\<rfloor>; r = y - of_int f
      in if r < 1 / 2 then f else if 1 / 2 < r then f + 1 else if even f then f else f + 1)"

text \<open>
  Rounding to 53 significant bits, and to a multiple of \<open>2^-1074\<close> where that is coarser
  (the subnormal range), with no bound on the size: first for a positive number, then
  for any.
\<close>

definition fl_mag :: "rat \<Rightarrow> rat" where
  "fl_mag x =
     (if x \<le> 0 then 0
      else let e = max (ilog2 x - 52) (- 1074)
           in of_int (round_half_even (x / pow2 e)) * pow2 e)"

definition fl :: "rat \<Rightarrow> rat" where
  "fl x = (if x < 0 then - fl_mag (- x) else fl_mag x)"

datatype float64 = Finite rat | PosInf | NegInf | NaN

text \<open>The float that an operation with the exact result \<open>x\<close> returns.\<close>

definition round_f64 :: "rat \<Rightarrow> float64" where
  "round_f64 x =
     (let y = fl x
      in if y = 0 then Finite 0
         else if 1024 \<le> ilog2 \<bar>y\<bar> then (if 0 < y then PosInf else NegInf)
         else Finite y)"

text \<open>The conversion of an \<open>int\<close> operand to \<open>float\<close>: \<open>OverflowError\<close> when the integer
  is too large.\<close>

definition float_of_int :: "int \<Rightarrow> py_error + rat" where
  "float_of_int n = (case round_f64 (of_int n) of Finite x \<Rightarrow> Inr x | _ \<Rightarrow> Inl OverflowError)"

text \<open>The quotient and the product of a float and a finite float; the quotient is for a
  divisor other than 0.\<close>

definition f64_quot :: "float64 \<Rightarrow> rat \<Rightarrow> float64" where
  "f64_quot a d =
     (case a of
        Finite x \<Rightarrow> if d = 0 then NaN else round_f64 (x / d)
      | PosInf \<Rightarrow> if 0 < d then PosInf else if d < 0 then NegInf else NaN
      | NegInf \<Rightarrow> if 0 < d then NegInf else if d < 0 then PosInf else NaN
      | NaN \<Rightarrow> NaN)"

definition f64_mul :: "float64 \<Rightarrow> rat \<Rightarrow> float64" where
  "f64_mul a y =
     (case a of
        Finite x \<Rightarrow> round_f64 (x * y)
      | PosInf \<Rightarrow> if 0 < y then PosInf else if y < 0 then NegInf else NaN
      | NegInf \<Rightarrow> if 0 < y then NegInf else if y < 0 then PosInf else NaN
      | NaN \<Rightarrow> NaN)"

text \<open>\<open>a / d\<close> on floats: Python raises \<open>ZeroDivisionError\<close> on the divisor 0 and
  divides otherwise.\<close>

definition f64_truediv :: "float64 \<Rightarrow> rat \<Rightarrow> py_error + float64" where
  "f64_truediv a d = (if d = 0 then Inl ZeroDivisionError else Inr (f64_quot a d))"

text \<open>\<open>int(x)\<close> on a float truncates toward zero; it raises \<open>OverflowError\<close> on an
  infinity and \<open>ValueError\<close> on \<open>nan\<close>.\<close>

definition py_int :: "pyfloat \<Rightarrow> int" where
  "py_int x = (if 0 \<le> x then \<lfloor>x\<rfloor> else \<lceil>x\<rceil>)"

definition int_of_f64 :: "float64 \<Rightarrow> py_error + int" where
  "int_of_f64 a =
     (case a of
        Finite x \<Rightarrow> Inr (py_int x)
      | PosInf \<Rightarrow> Inl OverflowError
      | NegInf \<Rightarrow> Inl OverflowError
      | NaN \<Rightarrow> Inl ValueError)"

text \<open>
  \<open>v % w\<close> and \<open>v // w\<close> on finite floats, \<open>w\<close> not 0, as CPython computes them
  (\<open>float_rem\<close> and \<open>float_floor_div\<close> of \<open>floatobject.c\<close>): the remainder \<open>fmod\<close> of C is
  exact and has the sign of \<open>v\<close>; it is moved to the sign of \<open>w\<close> by one addition; the
  quotient is \<open>(v - mod) / w\<close>, less 1 when the remainder was moved, and then snapped to
  the nearest integer. The resolver uses both with \<open>w = 60\<close>, where no step can
  overflow.
\<close>

definition c_fmod :: "rat \<Rightarrow> rat \<Rightarrow> rat" where
  "c_fmod v w = v - w * of_int (py_int (v / w))"

definition float_mod :: "rat \<Rightarrow> rat \<Rightarrow> rat" where
  "float_mod v w =
     (let m = c_fmod v w
      in if m \<noteq> 0 \<and> ((w < 0) \<noteq> (m < 0)) then fl (m + w) else m)"

definition float_floordiv :: "rat \<Rightarrow> rat \<Rightarrow> rat" where
  "float_floordiv v w =
     (let m = c_fmod v w;
          d0 = fl (fl (v - m) / w);
          d = (if m \<noteq> 0 \<and> ((w < 0) \<noteq> (m < 0)) then fl (d0 - 1) else d0)
      in if d \<noteq> 0
         then (let f = of_int \<lfloor>d\<rfloor> in if 1 / 2 < fl (d - f) then fl (f + 1) else f)
         else 0)"

section \<open>Data model\<close>

text \<open>The metadata dictionary of the raw extraction cache; \<open>title\<close> and \<open>author\<close> are
  read with \<open>.get\<close> and a default, so they may be absent.\<close>

record doc_metadata =
  title :: "string option"
  author :: "string option"
  source_filename :: string
  total_pages :: nat

text \<open>One entry of \<open>content\<close> in the raw extraction cache (the coordinate blocks are not
  read by any later stage).\<close>

record page_data =
  page_number :: nat
  text_blocks :: "string list"

record raw_data =
  raw_metadata :: doc_metadata
  content :: "page_data list"

record sentence_data =
  global_index :: nat
  sentence_in_block :: nat
  sentence_text :: string

record chunk =
  chunk_id :: nat
  chunk_text :: string
  page :: nat
  block_index :: nat
  sentences :: "sentence_data list"
  start_time :: pyfloat
  duration_seconds :: pyfloat
  end_time :: pyfloat

record processing_summary =
  total_chunks :: nat
  total_sentences :: nat
  total_estimated_duration_seconds :: pyfloat

record citation_data =
  metadata :: doc_metadata
  book_id :: string
  processing :: processing_summary
  chunks :: "chunk list"

text \<open>One record of \<open>ready_chunks\<close> in the generation ledger.\<close>

record ready_chunk =
  rc_chunk_id :: nat
  filename :: string
  rc_page :: nat
  text_snippet :: string
  rc_start_time :: pyfloat
  rc_duration_seconds :: pyfloat

text \<open>The generation ledger, \<open>manifest.json\<close> in the audio directory of a book.\<close>

record ledger =
  ledger_metadata :: doc_metadata
  ledger_book_id :: string
  ledger_total_chunks :: nat
  ready_chunks :: "ready_chunk list"

text \<open>
  What reading a JSON file gives: \<open>Unparseable\<close> when \<open>json.load\<close> raises or the text is
  not a JSON object; one of the three artifacts; or \<open>OtherJson\<close>, an object with none of
  the keys the program reads (on it \<open>.get\<close> gives the default and a subscription raises
  \<open>KeyError\<close>). The artifacts are taken well typed: an object that has a key has the
  value the writing stage puts there.
\<close>

datatype json_file =
    Unparseable
  | OtherJson
  | RawCacheJson raw_data
  | CitationJson citation_data
  | LedgerJson ledger

section \<open>Stage 2: the Chunker (\<open>prepare_tts_chunks_with_citations\<close>)\<close>

definition AVG_CHARS_PER_SECOND :: nat where
  "AVG_CHARS_PER_SECOND = 14"

text \<open>The local variables of the chunking loops.\<close>

record chunker_vars =
  tts_chunks :: "chunk list"
  global_sentence_index :: nat
  estimated_total_time :: pyfloat
  current_chunk :: "string list"
  current_chunk_chars :: int
  chunk_sentences_data :: "sentence_data list"

text \<open>The block that closes the current chunk; the source has it twice (lines 346-356 and
  365-375), with the same text.\<close>

definition close_chunk :: "nat \<Rightarrow> nat \<Rightarrow> chunker_vars \<Rightarrow> chunker_vars" where
  "close_chunk page_num block_idx v =
     (let chunk_text' = str_join '' '' (current_chunk v);
          est_duration = (of_nat (length chunk_text') :: pyfloat) / of_nat AVG_CHARS_PER_SECOND
      in v\<lparr>tts_chunks := tts_chunks v @
               [\<lparr>chunk_id = length (tts_chunks v), chunk_text = chunk_text',
                 page = page_num, block_index = block_idx + 1,
                 sentences = chunk_sentences_data v,
                 start_time = estimated_total_time v,
                 duration_seconds = est_duration,
                 end_time = estimated_total_time v + est_duration\<rparr>],
             estimated_total_time := estimated_total_time v + est_duration\<rparr>)"

text \<open>The body of \<open>for sentence in sentences\<close> (lines 332-363).\<close>

definition add_sentence :: "int \<Rightarrow> nat \<Rightarrow> nat \<Rightarrow> chunker_vars \<Rightarrow> string \<Rightarrow> chunker_vars" where
  "add_sentence max_chars page_num block_idx v sentence0 =
     (let sentence = strip sentence0
      in if sentence = [] then v
         else
           let sentence_chars = int (length sentence) + 1
           in if current_chunk_chars v + sentence_chars < max_chars then
                v\<lparr>current_chunk := current_chunk v @ [sentence],
                  current_chunk_chars := current_chunk_chars v + sentence_chars,
                  chunk_sentences_data := chunk_sentences_data v @
                    [\<lparr>global_index = global_sentence_index v,
                      sentence_in_block = length (chunk_sentences_data v),
                      sentence_text = sentence\<rparr>],
                  global_sentence_index := global_sentence_index v + 1\<rparr>
              else
                let v' = (if current_chunk v \<noteq> [] then close_chunk page_num block_idx v else v)
                in v'\<lparr>current_chunk := [sentence],
                      current_chunk_chars := sentence_chars,
                      chunk_sentences_data :=
                        [\<lparr>global_index = global_sentence_index v',
                          sentence_in_block = 0,
                          sentence_text = sentence\<rparr>],
                      global_sentence_index := global_sentence_index v' + 1\<rparr>)"

text \<open>The body of \<open>for block_index, block_text in enumerate(...)\<close> (lines 327-375).\<close>

definition process_block :: "int \<Rightarrow> nat \<Rightarrow> chunker_vars \<Rightarrow> nat \<times> string \<Rightarrow> chunker_vars" where
  "process_block max_chars page_num v ib =
     (let v1 = v\<lparr>current_chunk := [], current_chunk_chars := 0, chunk_sentences_data := []\<rparr>;
          v2 = foldl (add_sentence max_chars page_num (fst ib)) v1 (re_split_sentences (snd ib))
      in if current_chunk v2 \<noteq> [] then close_chunk page_num (fst ib) v2 else v2)"

text \<open>The body of \<open>for page_data in data['content']\<close> (lines 325-375).\<close>

definition process_page :: "int \<Rightarrow> chunker_vars \<Rightarrow> page_data \<Rightarrow> chunker_vars" where
  "process_page max_chars v page_data' =
     foldl (process_block max_chars (page_number page_data')) v
       (enumerate 0 (text_blocks page_data'))"

definition initial_vars :: chunker_vars where
  "initial_vars =
     \<lparr>tts_chunks = [], global_sentence_index = 0, estimated_total_time = 0,
      current_chunk = [], current_chunk_chars = 0, chunk_sentences_data = []\<rparr>"

definition chunk_loop :: "int \<Rightarrow> raw_data \<Rightarrow> chunker_vars" where
  "chunk_loop max_chars data = foldl (process_page max_chars) initial_vars (content data)"

text \<open>
  \<open>\w\<close> of \<open>re\<close> on a \<open>str\<close> pattern is \<open>str.isalnum\<close> or the underscore; on the code
  points 0..255 these are the ASCII digits and letters, the underscore, and the Latin-1
  letters and numerics.
\<close>

definition is_word_char :: "char \<Rightarrow> bool" where
  "is_word_char c =
     (let n = (of_char c :: nat)
      in (48 \<le> n \<and> n \<le> 57) \<or> (65 \<le> n \<and> n \<le> 90) \<or> n = 95 \<or> (97 \<le> n \<and> n \<le> 122)
         \<or> n = 170 \<or> n = 178 \<or> n = 179 \<or> n = 181 \<or> n = 185 \<or> n = 186
         \<or> (188 \<le> n \<and> n \<le> 190) \<or> (192 \<le> n \<and> n \<le> 214)
         \<or> (216 \<le> n \<and> n \<le> 246) \<or> (248 \<le> n \<and> n \<le> 255))"

text \<open>\<open>re.sub(r'[^\w\s-]', '', title).strip().replace(' ', '_')\<close>\<close>

definition sanitize_book_name :: "string \<Rightarrow> string" where
  "sanitize_book_name book_title =
     map (\<lambda>c. if c = CHR '' '' then CHR ''_'' else c)
       (strip (filter (\<lambda>c. is_word_char c \<or> is_space c \<or> c = CHR ''-'') book_title))"

text \<open>
  The manifest that \<open>prepare_tts_chunks_with_citations\<close> builds from the parsed cache
  (lines 319-394). \<open>stem_title\<close> is the fallback title
  \<open>cache_file_path.stem.replace("_raw", "")\<close>, used when the metadata has no title.
\<close>

definition build_citation_data :: "int \<Rightarrow> string \<Rightarrow> raw_data \<Rightarrow> citation_data" where
  "build_citation_data max_chars stem_title data =
     (let v = chunk_loop max_chars data;
          book_title = (case title (raw_metadata data) of Some t \<Rightarrow> t | None \<Rightarrow> stem_title);
          book_name_sanitized = sanitize_book_name book_title
      in \<lparr>metadata = raw_metadata data,
          book_id = book_name_sanitized,
          processing = \<lparr>total_chunks = length (tts_chunks v),
                        total_sentences = global_sentence_index v,
                        total_estimated_duration_seconds = estimated_total_time v\<rparr>,
          chunks = tts_chunks v\<rparr>)"

section \<open>The Citation Resolver (\<open>get_citation_at_timestamp\<close>)\<close>

text \<open>List subscription \<open>xs[i]\<close>: positions \<open>0..len-1\<close> from the front, \<open>-len..-1\<close> from
  the back, \<open>IndexError\<close> elsewhere.\<close>

definition py_index :: "'a list \<Rightarrow> int \<Rightarrow> py_error + 'a" where
  "py_index xs i =
     (if 0 \<le> i \<and> i < int (length xs) then Inr (xs ! nat i)
      else if i < 0 \<and> - int (length xs) \<le> i then Inr (xs ! nat (int (length xs) + i))
      else Inl IndexError)"

text \<open>Decimal rendering of integers, as \<open>str\<close> and the format \<open>{n:0wd}\<close> give it.\<close>

definition digit_char :: "nat \<Rightarrow> char" where
  "digit_char d = char_of (48 + d)"

fun str_nat :: "nat \<Rightarrow> string" where
  "str_nat n = (if n < 10 then [digit_char n] else str_nat (n div 10) @ [digit_char (n mod 10)])"

declare str_nat.simps [simp del]

definition str_int :: "int \<Rightarrow> string" where
  "str_int i = (if i < 0 then CHR ''-'' # str_nat (nat (- i)) else str_nat (nat i))"

definition zero_pad :: "nat \<Rightarrow> string \<Rightarrow> string" where
  "zero_pad w s = replicate (w - length s) (CHR ''0'') @ s"

definition format_0d :: "nat \<Rightarrow> int \<Rightarrow> string" where
  "format_0d w i =
     (if i < 0 then CHR ''-'' # zero_pad (w - 1) (str_nat (nat (- i)))
      else zero_pad w (str_nat (nat i)))"

record citation_result =
  citation :: string
  timestamp :: string
  cit_page :: nat
  block :: nat
  cit_sentence_in_block :: nat
  cit_sentence_text :: string

text \<open>\<open>text[:100] + "..." if len(text) > 100 else text\<close>\<close>

definition truncate_text :: "string \<Rightarrow> string" where
  "truncate_text s = (if length s > 100 then take 100 s @ ''...'' else s)"

text \<open>The dictionary returned at lines 541-551 for the chunk and the sentence found. The
  paragraph mark of the source text is the two code points 194 and 182. The timestamp is a
  finite float here: only such a timestamp lies in the interval of a chunk.\<close>

definition make_citation :: "doc_metadata \<Rightarrow> chunk \<Rightarrow> sentence_data \<Rightarrow> pyfloat \<Rightarrow> citation_result" where
  "make_citation md c s timestamp_seconds =
     \<lparr>citation =
        (case author md of Some a \<Rightarrow> a | None \<Rightarrow> ''Unknown'') @ '' - '' @
        (case title md of Some t \<Rightarrow> t | None \<Rightarrow> ''Unknown Title'') @ '', '' @
        ''p.'' @ str_nat (page c) @ '', '' @ [char_of (194::nat), char_of (182::nat)] @
        str_nat (block_index c) @ '', sent.'' @ str_nat (sentence_in_block s + 1),
      timestamp =
        str_int (py_int (float_floordiv timestamp_seconds 60)) @ '':'' @
        format_0d 2 (py_int (float_mod timestamp_seconds 60)),
      cit_page = page c,
      block = block_index c,
      cit_sentence_in_block = sentence_in_block s + 1,
      cit_sentence_text = truncate_text (sentence_text s)\<rparr>"

text \<open>
  The index computed at lines 535-538, each operation in float arithmetic. The numbers
  of the chunk are the floats read from the file. When the duration is not positive the
  ratio is the integer 0, the product \<open>0 * len\<close> is the integer 0, and nothing is
  rounded. Otherwise the product converts the length to \<open>float\<close>, and \<open>int\<close> raises when
  the product is not finite.
\<close>

definition sentence_index :: "chunk \<Rightarrow> pyfloat \<Rightarrow> py_error + int" where
  "sentence_index c timestamp_seconds =
     (let time_into_chunk = round_f64 (timestamp_seconds - start_time c);
          len = int (length (sentences c))
      in case (if duration_seconds c > 0
               then (case f64_truediv time_into_chunk (duration_seconds c) of
                       Inl e \<Rightarrow> Inl e
                     | Inr progress_ratio \<Rightarrow>
                         (case float_of_int len of
                            Inl e \<Rightarrow> Inl e
                          | Inr len' \<Rightarrow> int_of_f64 (f64_mul progress_ratio len')))
               else Inr 0) of
           Inl e \<Rightarrow> Inl e
         | Inr sentence_index' \<Rightarrow> Inr (min sentence_index' (len - 1)))"

text \<open>The loop \<open>for chunk in data['chunks']\<close> (lines 533-553) for a finite timestamp: the
  first chunk whose interval holds the timestamp decides; \<open>Inr None\<close> is the
  \<open>return None\<close> after the loop.\<close>

fun find_citation :: "doc_metadata \<Rightarrow> chunk list \<Rightarrow> pyfloat \<Rightarrow> py_error + citation_result option" where
  "find_citation md [] timestamp_seconds = Inr None"
| "find_citation md (c # cs) timestamp_seconds =
     (if start_time c \<le> timestamp_seconds \<and> timestamp_seconds < end_time c then
        (case sentence_index c timestamp_seconds of
           Inl e \<Rightarrow> Inl e
         | Inr i \<Rightarrow>
             (case py_index (sentences c) i of
                Inl e \<Rightarrow> Inl e
              | Inr s \<Rightarrow> Inr (Some (make_citation md c s timestamp_seconds))))
      else find_citation md cs timestamp_seconds)"

text \<open>\<open>get_citation_at_timestamp\<close>: the file is absent (\<open>None\<close>), does not parse or is not
  a manifest (the exception leaves the function), or is searched. The test
  \<open>start_time <= t < end_time\<close> is false of every chunk when \<open>t\<close> is an infinity or \<open>nan\<close>,
  the numbers of the file being finite, so the loop falls through.\<close>

definition get_citation_at_timestamp :: "json_file option \<Rightarrow> float64 \<Rightarrow> py_error + citation_result option" where
  "get_citation_at_timestamp citation_file timestamp_seconds =
     (case citation_file of
        None \<Rightarrow> Inr None
      | Some Unparseable \<Rightarrow> Inl JSONDecodeError
      | Some (CitationJson data) \<Rightarrow>
          (case timestamp_seconds of
             Finite t \<Rightarrow> find_citation (metadata data) (chunks data) t
           | _ \<Rightarrow> Inr None)
      | Some _ \<Rightarrow> Inl KeyError)"

section \<open>Files and external services\<close>

text \<open>
  The three directories of the service, each a map from file names to contents:
  \<open>pdf_input\<close> (the source documents), \<open>pdf_cache\<close> (raw extraction caches and citation
  manifests) and, per book name, the audio directory under \<open>outputs/audiobooks\<close> with
  its ledger \<open>manifest.json\<close> and its audio files. A directory that was never written is
  the empty one. The file system accepts every write. Two ghost fields record the calls
  to the external services: the chunks whose text was posted to the synthesizer, and the
  documents handed to the structure extractor, both in call order.
\<close>

type_synonym bytes = "nat list"

record book_dir =
  manifest_json :: "json_file option"
  audio :: "string \<rightharpoonup> bytes"

record world =
  pdf_input :: "string \<rightharpoonup> bytes"
  pdf_cache :: "string \<rightharpoonup> json_file"
  audiobooks :: "string \<Rightarrow> book_dir"
  tts_requests :: "chunk list"
  extractor_calls :: "string list"

text \<open>
  The answer of the synthesizer to one request: the audio of a success response, a
  response on which \<open>raise_for_status\<close> raises, or an exception of the transport (a
  timeout is one).
\<close>

datatype tts_response = TtsAudio bytes | HttpStatusError nat | TransportError

text \<open>
  The external services. \<open>extract_document name pdf\<close> is the dictionary that the
  \<open>try\<close> block of \<open>process_pdf\<close> builds from the document, \<open>None\<close> when the block raises.
  \<open>synthesize n text\<close> is the answer to the request number \<open>n\<close> of a run, counted from
  0, so that the same text may be answered differently at different times.
\<close>

record env =
  extract_document :: "string \<Rightarrow> bytes \<Rightarrow> raw_data option"
  synthesize :: "nat \<Rightarrow> string \<Rightarrow> tts_response"

text \<open>\<open>Path(name).stem\<close>: the name without its last suffix; a leading or a trailing
  dot starts no suffix.\<close>

definition stem :: "string \<Rightarrow> string" where
  "stem name =
     (let r = rev name;
          suffix_rev = takeWhile (\<lambda>c. c \<noteq> CHR ''.'') r;
          rest = dropWhile (\<lambda>c. c \<noteq> CHR ''.'') r
      in if rest = [] \<or> suffix_rev = [] \<or> tl rest = [] then name else rev (tl rest))"

text \<open>\<open>s.replace(old, new)\<close> for a non-empty \<open>old\<close>: the occurrences are replaced from
  left to right; \<open>k\<close> counts the characters of a replaced occurrence still to skip.\<close>

fun replace_scan :: "nat \<Rightarrow> string \<Rightarrow> string \<Rightarrow> string \<Rightarrow> string" where
  "replace_scan k old new [] = []"
| "replace_scan k old new (c # cs) =
     (if 0 < k then replace_scan (k - 1) old new cs
      else if old \<noteq> [] \<and> take (length old) (c # cs) = old
           then new @ replace_scan (length old - 1) old new cs
      else c # replace_scan 0 old new cs)"

definition str_replace :: "string \<Rightarrow> string \<Rightarrow> string \<Rightarrow> string" where
  "str_replace old new s = replace_scan 0 old new s"

section \<open>Stage 3: Segment Generation (\<open>generate_audio_streaming\<close>)\<close>

text \<open>\<open>f"chunk_{chunk_id:04d}_p{page}.wav"\<close>\<close>

definition audio_filename :: "chunk \<Rightarrow> string" where
  "audio_filename c =
     ''chunk_'' @ format_0d 4 (int (chunk_id c)) @ ''_p'' @ str_nat (page c) @ ''.wav''"

text \<open>The record appended to \<open>ready_chunks\<close> (lines 458-465 and 507-514, the same text).\<close>

definition ready_entry :: "chunk \<Rightarrow> ready_chunk" where
  "ready_entry c =
     \<lparr>rc_chunk_id = chunk_id c,
      filename = audio_filename c,
      rc_page = page c,
      text_snippet = take 50 (chunk_text c) @ ''...'',
      rc_start_time = start_time c,
      rc_duration_seconds = duration_seconds c\<rparr>"

text \<open>\<open>any(c['chunk_id'] == chunk_id for c in manifest['ready_chunks'])\<close>\<close>

definition listed :: "ledger \<Rightarrow> chunk \<Rightarrow> bool" where
  "listed manifest c = list_ex (\<lambda>r. rc_chunk_id r = chunk_id c) (ready_chunks manifest)"

text \<open>\<open>audio_path.exists()\<close>\<close>

definition on_disk :: "world \<Rightarrow> string \<Rightarrow> chunk \<Rightarrow> bool" where
  "on_disk w book_name c = (audio (audiobooks w book_name) (audio_filename c) \<noteq> None)"

text \<open>The append and the stable sort by \<open>chunk_id\<close> that follows it.\<close>

definition add_ready :: "ledger \<Rightarrow> chunk \<Rightarrow> ledger" where
  "add_ready manifest c =
     manifest\<lparr>ready_chunks := sort_key rc_chunk_id (ready_chunks manifest @ [ready_entry c])\<rparr>"

text \<open>\<open>json.dump(manifest, f)\<close> on \<open>manifest_path\<close>, and the write of the audio file.\<close>

definition write_ledger :: "string \<Rightarrow> ledger \<Rightarrow> world \<Rightarrow> world" where
  "write_ledger book_name manifest w =
     w\<lparr>audiobooks := (audiobooks w)
          (book_name := (audiobooks w book_name)\<lparr>manifest_json := Some (LedgerJson manifest)\<rparr>)\<rparr>"

definition write_audio :: "string \<Rightarrow> string \<Rightarrow> bytes \<Rightarrow> world \<Rightarrow> world" where
  "write_audio book_name name content' w =
     w\<lparr>audiobooks := (audiobooks w)
          (book_name := (audiobooks w book_name)
             \<lparr>audio := (audio (audiobooks w book_name))(name \<mapsto> content')\<rparr>)\<rparr>"

text \<open>
  The body of \<open>for chunk in chunks_to_process\<close> (lines 448-520), on the in-memory
  manifest and the world. A chunk that is on disk or listed is skipped, and listed first
  if it is on disk only. Otherwise its text is posted; a failure leaves everything but
  the request made as it was; a success writes the audio file, lists the chunk and writes
  the ledger.
\<close>

definition process_chunk :: "env \<Rightarrow> string \<Rightarrow> ledger \<times> world \<Rightarrow> chunk \<Rightarrow> ledger \<times> world" where
  "process_chunk e book_name mw c =
     (let manifest = fst mw; w = snd mw
      in if on_disk w book_name c \<or> listed manifest c then
           (if on_disk w book_name c \<and> \<not> listed manifest c
            then (add_ready manifest c, write_ledger book_name (add_ready manifest c) w)
            else (manifest, w))
         else
           let w1 = w\<lparr>tts_requests := tts_requests w @ [c]\<rparr>
           in case synthesize e (length (tts_requests w)) (chunk_text c) of
                TtsAudio content' \<Rightarrow>
                  (add_ready manifest c,
                   write_ledger book_name (add_ready manifest c)
                     (write_audio book_name (audio_filename c) content' w1))
              | HttpStatusError code \<Rightarrow> (manifest, w1)
              | TransportError \<Rightarrow> (manifest, w1))"

text \<open>\<open>data['chunks'][:limit] if limit else data['chunks']\<close>: no limit and the limit 0 take
  all chunks, a negative limit drops that many from the end.\<close>

definition chunks_to_process :: "int option \<Rightarrow> chunk list \<Rightarrow> chunk list" where
  "chunks_to_process limit cs =
     (case limit of
        None \<Rightarrow> cs
      | Some l \<Rightarrow> if l = 0 then cs
                  else if 0 < l then take (nat l) cs
                  else take (length cs - nat (- l)) cs)"

text \<open>The manifest the stage starts from when the ledger file holds \<open>existing\<close>.\<close>

definition initial_manifest :: "citation_data \<Rightarrow> json_file option \<Rightarrow> ledger" where
  "initial_manifest data existing =
     \<lparr>ledger_metadata = metadata data,
      ledger_book_id = book_id data,
      ledger_total_chunks = length (chunks data),
      ready_chunks = (case existing of Some (LedgerJson l) \<Rightarrow> ready_chunks l | _ \<Rightarrow> [])\<rparr>"

text \<open>
  \<open>generate_audio_streaming\<close> on the citation file \<open>citation_name\<close> of the cache
  directory. The result is \<open>Inr None\<close> for \<open>return None\<close>, \<open>Inr (Some book)\<close> for the
  audio directory returned at the end, and \<open>Inl\<close> for an exception that leaves the
  function.
\<close>

definition generate_audio_streaming ::
  "env \<Rightarrow> string \<Rightarrow> int option \<Rightarrow> world \<Rightarrow> (py_error + string option) \<times> world" where
  "generate_audio_streaming e citation_name limit w =
     (case pdf_cache w citation_name of
        None \<Rightarrow> (Inr None, w)
      | Some Unparseable \<Rightarrow> (Inl JSONDecodeError, w)
      | Some (CitationJson data) \<Rightarrow>
          (case manifest_json (audiobooks w (book_id data)) of
             Some Unparseable \<Rightarrow> (Inr None, w)
           | existing \<Rightarrow>
               (Inr (Some (book_id data)),
                snd (foldl (process_chunk e (book_id data))
                       (initial_manifest data existing, w)
                       (chunks_to_process limit (chunks data)))))
      | Some _ \<Rightarrow> (Inl KeyError, w))"

section \<open>Segment Generation on a file system whose writes may fail\<close>

text \<open>
  The stage writes files at three places, and the source treats a failure at each of
  them differently. The write of the ledger in the self-healing branch stands in its own
  \<open>try\<close> (lines 468-472): a failure is logged and the loop goes on. The write of the audio
  file (lines 494-495) stands in the \<open>try\<close> of the request: a failure is caught by
  \<open>except Exception\<close> (line 501) and the chunk is skipped. The write of the ledger after a
  success (lines 517-518) stands in no \<open>try\<close>: a failure leaves the function as an
  exception. A write either succeeds or fails and leaves the file in some state (absent,
  as it was, or cut short); the oracle \<open>disk\<close> tells which, for the write made while a
  given chunk is processed.
\<close>

datatype 'a write_outcome = Succeeds | FailsLeaving "'a option"

record disk =
  heal_write :: "chunk \<Rightarrow> json_file write_outcome"
  audio_write :: "chunk \<Rightarrow> bytes write_outcome"
  ledger_write :: "chunk \<Rightarrow> json_file write_outcome"

definition reliable_disk :: disk where
  "reliable_disk =
     \<lparr>heal_write = (\<lambda>c. Succeeds), audio_write = (\<lambda>c. Succeeds),
      ledger_write = (\<lambda>c. Succeeds)\<rparr>"

text \<open>What a failed write leaves behind.\<close>

definition set_ledger_file :: "string \<Rightarrow> json_file option \<Rightarrow> world \<Rightarrow> world" where
  "set_ledger_file book_name left w =
     w\<lparr>audiobooks := (audiobooks w)
          (book_name := (audiobooks w book_name)\<lparr>manifest_json := left\<rparr>)\<rparr>"

definition set_audio_file :: "string \<Rightarrow> string \<Rightarrow> bytes option \<Rightarrow> world \<Rightarrow> world" where
  "set_audio_file book_name name left w =
     w\<lparr>audiobooks := (audiobooks w)
          (book_name := (audiobooks w book_name)
             \<lparr>audio := (audio (audiobooks w book_name))(name := left)\<rparr>)\<rparr>"

text \<open>
  The body of the loop with the three writes as they may fail. The first component of
  the result is the exception that leaves the loop, if there is one. In the self-healing
  branch the record is appended and the list sorted before the write is tried, so the
  manifest in memory has the record whether the write succeeds or not.
\<close>

definition process_chunk_io ::
  "disk \<Rightarrow> env \<Rightarrow> string \<Rightarrow> ledger \<times> world \<Rightarrow> chunk \<Rightarrow> py_error option \<times> ledger \<times> world" where
  "process_chunk_io d e book_name mw c =
     (let manifest = fst mw; w = snd mw
      in if on_disk w book_name c \<or> listed manifest c then
           (if on_disk w book_name c \<and> \<not> listed manifest c
            then (case heal_write d c of
                    Succeeds \<Rightarrow>
                      (None, add_ready manifest c,
                       write_ledger book_name (add_ready manifest c) w)
                  | FailsLeaving left \<Rightarrow>
                      (None, add_ready manifest c, set_ledger_file book_name left w))
            else (None, manifest, w))
         else
           let w1 = w\<lparr>tts_requests := tts_requests w @ [c]\<rparr>
           in case synthesize e (length (tts_requests w)) (chunk_text c) of
                TtsAudio content' \<Rightarrow>
                  (case audio_write d c of
                     FailsLeaving left \<Rightarrow>
                       (None, manifest, set_audio_file book_name (audio_filename c) left w1)
                   | Succeeds \<Rightarrow>
                       (case ledger_write d c of
                          Succeeds \<Rightarrow>
                            (None, add_ready manifest c,
                             write_ledger book_name (add_ready manifest c)
                               (write_audio book_name (audio_filename c) content' w1))
                        | FailsLeaving left \<Rightarrow>
                            (Some OSError, add_ready manifest c,
                             set_ledger_file book_name left
                               (write_audio book_name (audio_filename c) content' w1))))
              | HttpStatusError code \<Rightarrow> (None, manifest, w1)
              | TransportError \<Rightarrow> (None, manifest, w1))"

text \<open>The loop: it ends with the last chunk or with the first exception.\<close>

fun stage3_loop_io ::
  "disk \<Rightarrow> env \<Rightarrow> string \<Rightarrow> ledger \<times> world \<Rightarrow> chunk list \<Rightarrow> py_error option \<times> ledger \<times> world" where
  "stage3_loop_io d e book_name mw [] = (None, mw)"
| "stage3_loop_io d e book_name mw (c # cs) =
     (case process_chunk_io d e book_name mw c of
        (Some err, mw') \<Rightarrow> (Some err, mw')
      | (None, mw') \<Rightarrow> stage3_loop_io d e book_name mw' cs)"

text \<open>\<open>generate_audio_streaming\<close> on such a file system.\<close>

definition generate_audio_streaming_io ::
  "disk \<Rightarrow> env \<Rightarrow> string \<Rightarrow> int option \<Rightarrow> world \<Rightarrow> (py_error + string option) \<times> world" where
  "generate_audio_streaming_io d e citation_name limit w =
     (case pdf_cache w citation_name of
        None \<Rightarrow> (Inr None, w)
      | Some Unparseable \<Rightarrow> (Inl JSONDecodeError, w)
      | Some (CitationJson data) \<Rightarrow>
          (case manifest_json (audiobooks w (book_id data)) of
             Some Unparseable \<Rightarrow> (Inr None, w)
           | existing \<Rightarrow>
               (case stage3_loop_io d e (book_id data)
                       (initial_manifest data existing, w)
                       (chunks_to_process limit (chunks data)) of
                  (Some err, mw') \<Rightarrow> (Inl err, snd mw')
                | (None, mw') \<Rightarrow> (Inr (Some (book_id data)), snd mw')))
      | Some _ \<Rightarrow> (Inl KeyError, w))"

section \<open>Stages 1 and 2 on files, and the orchestrator (\<open>run_full_pipeline\<close>)\<close>

text \<open>\<open>process_pdf\<close>: a missing document and a failed extraction return \<open>None\<close>; a
  successful one writes the raw cache, over any file of that name, and returns its
  name. The function does not look at the cache directory before it writes.\<close>

definition process_pdf :: "env \<Rightarrow> string \<Rightarrow> world \<Rightarrow> string option \<times> world" where
  "process_pdf e pdf_filename w =
     (case pdf_input w pdf_filename of
        None \<Rightarrow> (None, w)
      | Some pdf \<Rightarrow>
          let cache_file_name = stem pdf_filename @ ''_raw.json'';
              w1 = w\<lparr>extractor_calls := extractor_calls w @ [pdf_filename]\<rparr>
          in case extract_document e pdf_filename pdf of
               None \<Rightarrow> (None, w1)
             | Some output_data \<Rightarrow>
                 (Some cache_file_name,
                  w1\<lparr>pdf_cache := (pdf_cache w1)(cache_file_name \<mapsto> RawCacheJson output_data)\<rparr>))"

text \<open>\<open>prepare_tts_chunks_with_citations\<close> on a cache file name: \<open>json.load\<close> stands before
  the \<open>try\<close>, so a file that does not parse raises; a parsed object without
  \<open>content\<close> raises inside the \<open>try\<close> and gives \<open>None\<close>.\<close>

definition prepare_tts_chunks_with_citations ::
  "string \<Rightarrow> int \<Rightarrow> world \<Rightarrow> (py_error + string option) \<times> world" where
  "prepare_tts_chunks_with_citations cache_file_name max_chars w =
     (case pdf_cache w cache_file_name of
        None \<Rightarrow> (Inr None, w)
      | Some Unparseable \<Rightarrow> (Inl JSONDecodeError, w)
      | Some (RawCacheJson data) \<Rightarrow>
          let output_data = build_citation_data max_chars
                              (str_replace ''_raw'' [] (stem cache_file_name)) data;
              citation_file_name = book_id output_data @ ''_citation_ready.json''
          in (Inr (Some citation_file_name),
              w\<lparr>pdf_cache := (pdf_cache w)(citation_file_name \<mapsto> CitationJson output_data)\<rparr>)
      | Some _ \<Rightarrow> (Inr None, w))"

text \<open>The \<open>metadata\<close> entry of a parsed file, for those that have one.\<close>

definition json_metadata :: "json_file \<Rightarrow> doc_metadata option" where
  "json_metadata j =
     (case j of
        RawCacheJson d \<Rightarrow> Some (raw_metadata d)
      | CitationJson d \<Rightarrow> Some (metadata d)
      | LedgerJson l \<Rightarrow> Some (ledger_metadata l)
      | _ \<Rightarrow> None)"

text \<open>Lines 167-180: the name of the citation manifest this document would have, from
  the title in the raw cache if there is one and from the file name otherwise; \<open>None\<close>
  when reading the cache raises.\<close>

definition potential_citation_name :: "world \<Rightarrow> string \<Rightarrow> string option" where
  "potential_citation_name w pdf_filename =
     (case pdf_cache w (stem pdf_filename @ ''_raw.json'') of
        None \<Rightarrow> Some (sanitize_book_name (stem pdf_filename) @ ''_citation_ready.json'')
      | Some j \<Rightarrow>
          (case json_metadata j of
             None \<Rightarrow> None
           | Some md \<Rightarrow>
               Some (sanitize_book_name
                       (case title md of Some t \<Rightarrow> t | None \<Rightarrow> stem pdf_filename)
                     @ ''_citation_ready.json'')))"

text \<open>Lines 183-184: the citation manifest is taken as cached when the name could be
  derived and a file of that name exists.\<close>

definition citation_cache_hit :: "world \<Rightarrow> string \<Rightarrow> string option" where
  "citation_cache_hit w pdf_filename =
     (case potential_citation_name w pdf_filename of
        None \<Rightarrow> None
      | Some n \<Rightarrow> if pdf_cache w n \<noteq> None then Some n else None)"

datatype outcome = Finished | HaltedStage1 | HaltedStage2

text \<open>\<open>run_full_pipeline\<close>. Stage 3 runs on the cached manifest or on the one Stage 2
  wrote; whatever it returns, the pipeline logs that it finished.\<close>

definition run_full_pipeline :: "env \<Rightarrow> string \<Rightarrow> world \<Rightarrow> (py_error + outcome) \<times> world" where
  "run_full_pipeline e pdf_filename w =
     (case citation_cache_hit w pdf_filename of
        Some citation_name \<Rightarrow>
          (case generate_audio_streaming e citation_name None w of
             (Inl err, w3) \<Rightarrow> (Inl err, w3)
           | (Inr r, w3) \<Rightarrow> (Inr Finished, w3))
      | None \<Rightarrow>
          (case process_pdf e pdf_filename w of
             (None, w1) \<Rightarrow> (Inr HaltedStage1, w1)
           | (Some raw_cache_name, w1) \<Rightarrow>
               (case prepare_tts_chunks_with_citations raw_cache_name 400 w1 of
                  (Inl err, w2) \<Rightarrow> (Inl err, w2)
                | (Inr None, w2) \<Rightarrow> (Inr HaltedStage2, w2)
                | (Inr (Some citation_name), w2) \<Rightarrow>
                    (case generate_audio_streaming e citation_name None w2 of
                       (Inl err, w3) \<Rightarrow> (Inl err, w3)
                     | (Inr r, w3) \<Rightarrow> (Inr Finished, w3)))))"

section \<open>Specification-level notions\<close>

text \<open>
  The greedy rule in the words of the specification: a sentence is added to the current
  chunk while \<open>current_chunk_chars + len(sentence) + 1 < max_chars\<close>; otherwise the current
  chunk is closed and a new one starts with that sentence. \<open>chunk_chars\<close> is the size of
  the current chunk as the rule counts it, each sentence with one separator. At the end of
  the block the chunk that is still open is closed. A chunk is a list of sentences; an
  empty current chunk is not a chunk.
\<close>

definition chunk_chars :: "string list \<Rightarrow> int" where
  "chunk_chars cur = (\<Sum>s\<leftarrow>cur. int (length s) + 1)"

definition closed_chunk :: "string list \<Rightarrow> string list list" where
  "closed_chunk cur = (if cur = [] then [] else [cur])"

fun greedy_chunks :: "int \<Rightarrow> string list \<Rightarrow> string list \<Rightarrow> string list list" where
  "greedy_chunks max_chars cur [] = closed_chunk cur"
| "greedy_chunks max_chars cur (s # ss) =
     (if chunk_chars cur + int (length s) + 1 < max_chars
      then greedy_chunks max_chars (cur @ [s]) ss
      else closed_chunk cur @ greedy_chunks max_chars [s] ss)"

text \<open>The non-empty sentences of a block, stripped, in order.\<close>

definition block_sentences :: "string \<Rightarrow> string list" where
  "block_sentences block_text = filter (\<lambda>s. s \<noteq> []) (map strip (re_split_sentences block_text))"

text \<open>The blocks of a document in reading order, each with its page number and its
  0-based position on the page.\<close>

definition page_blocks :: "page_data \<Rightarrow> (nat \<times> nat \<times> string) list" where
  "page_blocks pd = map (\<lambda>ib. (page_number pd, fst ib, snd ib)) (enumerate 0 (text_blocks pd))"

definition all_blocks :: "raw_data \<Rightarrow> (nat \<times> nat \<times> string) list" where
  "all_blocks data = concat (map page_blocks (content data))"

text \<open>The chunks the greedy rule gives for one block, each labelled with the page and the
  1-based ordinal of the block.\<close>

definition block_chunks :: "int \<Rightarrow> nat \<times> nat \<times> string \<Rightarrow> (nat \<times> nat \<times> string list) list" where
  "block_chunks max_chars pib =
     map (\<lambda>g. (fst pib, fst (snd pib) + 1, g))
       (greedy_chunks max_chars [] (block_sentences (snd (snd pib))))"

text \<open>What a chunk of the manifest says about its origin: page, block ordinal and the
  texts of its sentences.\<close>

definition chunk_key :: "chunk \<Rightarrow> nat \<times> nat \<times> string list" where
  "chunk_key c = (page c, block_index c, map sentence_text (sentences c))"

text \<open>A list of chunks lies on one time axis from \<open>t0\<close> to \<open>t1\<close>: each chunk starts
  where the one before it ended, ends at its start plus its duration, and no duration is
  negative.\<close>

fun chained :: "pyfloat \<Rightarrow> chunk list \<Rightarrow> pyfloat \<Rightarrow> bool" where
  "chained t0 [] t1 = (t0 = t1)"
| "chained t0 (c # cs) t1 =
     (start_time c = t0 \<and> end_time c = start_time c + duration_seconds c
      \<and> 0 \<le> duration_seconds c \<and> chained (end_time c) cs t1)"

text \<open>The global indices of the sentences of a manifest, chunk by chunk in list order and
  within a chunk in local order.\<close>

definition global_indices :: "chunk list \<Rightarrow> nat list" where
  "global_indices cs = concat (map (\<lambda>c. map global_index (sentences c)) cs)"

text \<open>What holds of every chunk the Chunker emits, whatever its neighbours are.\<close>

definition chunk_ok :: "chunk \<Rightarrow> bool" where
  "chunk_ok c =
     (sentences c \<noteq> []
      \<and> chunk_text c = str_join '' '' (map sentence_text (sentences c))
      \<and> map sentence_in_block (sentences c) = [0..<length (sentences c)])"

text \<open>The invariant of the chunks emitted so far, with \<open>n\<close> sentences in them and the
  time axis grown to \<open>t\<close>.\<close>

definition emitted_ok :: "chunk list \<Rightarrow> nat \<Rightarrow> pyfloat \<Rightarrow> bool" where
  "emitted_ok cs n t =
     (map chunk_id cs = [0..<length cs] \<and> chained 0 cs t
      \<and> list_all chunk_ok cs \<and> global_indices cs = [0..<n])"

text \<open>The invariant of the sentence loop: the sentences of the open chunk are the last
  ones numbered, and the size counter is the size of the open chunk.\<close>

definition open_ok :: "chunker_vars \<Rightarrow> bool" where
  "open_ok v =
     (map sentence_text (chunk_sentences_data v) = current_chunk v
      \<and> map sentence_in_block (chunk_sentences_data v) = [0..<length (chunk_sentences_data v)]
      \<and> length (chunk_sentences_data v) \<le> global_sentence_index v
      \<and> map global_index (chunk_sentences_data v) =
          [global_sentence_index v - length (chunk_sentences_data v)..<global_sentence_index v]
      \<and> current_chunk_chars v = chunk_chars (current_chunk v)
      \<and> emitted_ok (tts_chunks v)
          (global_sentence_index v - length (chunk_sentences_data v)) (estimated_total_time v))"

text \<open>The closing of the open chunk, if there is one: what the sentence loop does
  before it starts a new chunk, and what the block loop does after the last sentence.\<close>

definition flush :: "nat \<Rightarrow> nat \<Rightarrow> chunker_vars \<Rightarrow> chunker_vars" where
  "flush p b v = (if current_chunk v \<noteq> [] then close_chunk p b v else v)"

text \<open>The invariant between two blocks: every sentence numbered so far is in an emitted
  chunk.\<close>

definition block_ok :: "chunker_vars \<Rightarrow> bool" where
  "block_ok v = emitted_ok (tts_chunks v) (global_sentence_index v) (estimated_total_time v)"

text \<open>
  The resolver in the words of the specification: the chunk whose half-open interval
  \<open>[start_time, end_time)\<close> holds the timestamp, and in it the sentence at
  \<open>floor(progress_ratio * sentence_count)\<close> clamped to \<open>[0, sentence_count - 1]\<close>, where
  \<open>progress_ratio = (timestamp - start_time) / duration_seconds\<close>, and 0 if the duration
  is 0. The arithmetic is that of floats, as in a program that computes the formula;
  there is no index when the product is not finite.
\<close>

definition covers :: "chunk \<Rightarrow> pyfloat \<Rightarrow> bool" where
  "covers c t = (start_time c \<le> t \<and> t < end_time c)"

definition spec_sentence_index :: "chunk \<Rightarrow> pyfloat \<Rightarrow> int option" where
  "spec_sentence_index c t =
     (let sentence_count = int (length (sentences c));
          progress_ratio = (if duration_seconds c = 0 then Finite 0
                            else f64_quot (round_f64 (t - start_time c)) (duration_seconds c))
      in case float_of_int sentence_count of
           Inl e \<Rightarrow> None
         | Inr count \<Rightarrow>
             (case f64_mul progress_ratio count of
                Finite x \<Rightarrow> Some (max 0 (min \<lfloor>x\<rfloor> (sentence_count - 1)))
              | _ \<Rightarrow> None))"

text \<open>A rational number is a finite float.\<close>

definition is_f64 :: "rat \<Rightarrow> bool" where
  "is_f64 x = (fl x = x \<and> (x = 0 \<or> ilog2 \<bar>x\<bar> < 1024))"


text \<open>\<open>sys.maxsize\<close>: no list of CPython on a 64-bit machine has more items.\<close>

definition sys_maxsize :: int where
  "sys_maxsize = 2 ^ 63 - 1"

text \<open>The time invariant of the data model, for any list of chunks: no chunk ends before
  it starts, and each chunk ends where the next one starts.\<close>

fun on_time_axis :: "chunk list \<Rightarrow> bool" where
  "on_time_axis [] = True"
| "on_time_axis [c] = (start_time c \<le> end_time c)"
| "on_time_axis (c # d # cs) =
     (start_time c \<le> end_time c \<and> end_time c = start_time d \<and> on_time_axis (d # cs))"

text \<open>The requests a run made: those in the log of the world after it that were not in
  the log before it.\<close>

definition new_requests :: "world \<Rightarrow> world \<Rightarrow> chunk list" where
  "new_requests w w' = drop (length (tts_requests w)) (tts_requests w')"

text \<open>The ready-chunk records of the ledger file of a book, as the stage reads them:
  none when there is no file or the object has no \<open>ready_chunks\<close>.\<close>

definition ledger_ready :: "world \<Rightarrow> string \<Rightarrow> ready_chunk list" where
  "ledger_ready w book_name =
     (case manifest_json (audiobooks w book_name) of
        Some (LedgerJson l) \<Rightarrow> ready_chunks l
      | _ \<Rightarrow> [])"

text \<open>The ledger file of a book lists a chunk.\<close>

definition ledger_lists :: "world \<Rightarrow> string \<Rightarrow> chunk \<Rightarrow> bool" where
  "ledger_lists w book_name c = (chunk_id c \<in> rc_chunk_id ` set (ledger_ready w book_name))"

text \<open>The ledger file holds the manifest in memory.\<close>

definition in_sync :: "string \<Rightarrow> ledger \<times> world \<Rightarrow> bool" where
  "in_sync book_name mw =
     (manifest_json (audiobooks (snd mw) book_name) = Some (LedgerJson (fst mw)))"

text \<open>The number a string of decimal digits stands for.\<close>

definition digits_value :: "string \<Rightarrow> nat" where
  "digits_value s = foldl (\<lambda>a c. 10 * a + (of_char c - 48)) 0 s"

section \<open>Examples\<close>

text \<open>A cache with one page of two blocks, the first of them the block of the
  specification's text split example.\<close>

definition example_data :: raw_data where
  "example_data =
     \<lparr>raw_metadata = \<lparr>title = Some ''A Book: Vol. 1'', author = None,
                       source_filename = ''book.pdf'', total_pages = 1\<rparr>,
      content = [\<lparr>page_number = 1,
                  text_blocks = [''Hello world. This is a test! Another sentence?'',
                                 ''A. B.'']\<rparr>]\<rparr>"

text \<open>The manifest of the specification's resolution example: a chunk over \<open>[0, 5)\<close>
  with the sentences A and B and a chunk over \<open>[5, 10)\<close> with the sentence C.\<close>

definition example_metadata :: doc_metadata where
  "example_metadata =
     \<lparr>title = Some ''T'', author = None, source_filename = ''t.pdf'', total_pages = 1\<rparr>"

definition sentence_A :: sentence_data where
  "sentence_A = \<lparr>global_index = 0, sentence_in_block = 0, sentence_text = ''A''\<rparr>"

definition sentence_B :: sentence_data where
  "sentence_B = \<lparr>global_index = 1, sentence_in_block = 1, sentence_text = ''B''\<rparr>"

definition sentence_C :: sentence_data where
  "sentence_C = \<lparr>global_index = 2, sentence_in_block = 0, sentence_text = ''C''\<rparr>"

definition chunk_AB :: chunk where
  "chunk_AB =
     \<lparr>chunk_id = 0, chunk_text = ''A B'', page = 1, block_index = 1,
      sentences = [sentence_A, sentence_B],
      start_time = 0, duration_seconds = 5, end_time = 5\<rparr>"

definition chunk_C :: chunk where
  "chunk_C =
     \<lparr>chunk_id = 1, chunk_text = ''C'', page = 1, block_index = 2,
      sentences = [sentence_C],
      start_time = 5, duration_seconds = 5, end_time = 10\<rparr>"

definition example_manifest :: citation_data where
  "example_manifest =
     \<lparr>metadata = example_metadata, book_id = ''T'',
      processing = \<lparr>total_chunks = 2, total_sentences = 3,
                    total_estimated_duration_seconds = 10\<rparr>,
      chunks = [chunk_AB, chunk_C]\<rparr>"

text \<open>The manifest the Chunker writes for a page with the blocks \<open>Hello.\<close> and
  \<open>Aa. Bb. Cc. Dd. Eee.\<close>: the durations are the floats \<open>6 / 14\<close> and \<open>20 / 14\<close>, the second
  chunk ends at the float sum of its start and its duration.\<close>

definition sentence_Bb :: sentence_data where
  "sentence_Bb = \<lparr>global_index = 2, sentence_in_block = 1, sentence_text = ''Bb.''\<rparr>"


definition chunk_letters :: chunk where
  "chunk_letters =
     \<lparr>chunk_id = 1, chunk_text = ''Aa. Bb. Cc. Dd. Eee.'', page = 1, block_index = 2,
      sentences = [\<lparr>global_index = 1, sentence_in_block = 0, sentence_text = ''Aa.''\<rparr>,
                   sentence_Bb,
                   \<lparr>global_index = 3, sentence_in_block = 2, sentence_text = ''Cc.''\<rparr>,
                   \<lparr>global_index = 4, sentence_in_block = 3, sentence_text = ''Dd.''\<rparr>,
                   \<lparr>global_index = 5, sentence_in_block = 4, sentence_text = ''Eee.''\<rparr>],
      start_time = 7720456504063707 / 18014398509481984,
      duration_seconds = 6433713753386423 / 4503599627370496,
      end_time = 4181913939701175 / 2251799813685248\<rparr>"




text \<open>Worlds and services for the examples of Segment Generation. The book \<open>T\<close> has the
  manifest of the resolution example; in \<open>healing_world\<close> the audio file of its second
  chunk is on disk and there is no ledger; in \<open>broken_ledger_world\<close> the ledger does not
  parse.\<close>

definition empty_dir :: book_dir where
  "empty_dir = \<lparr>manifest_json = None, audio = Map.empty\<rparr>"

definition fresh_world :: world where
  "fresh_world =
     \<lparr>pdf_input = Map.empty,
      pdf_cache = [''T_citation_ready.json'' \<mapsto> CitationJson example_manifest],
      audiobooks = (\<lambda>b. empty_dir),
      tts_requests = [], extractor_calls = []\<rparr>"

definition healing_world :: world where
  "healing_world =
     fresh_world\<lparr>audiobooks := (\<lambda>b. empty_dir)
       (''T'' := \<lparr>manifest_json = None, audio = [''chunk_0001_p1.wav'' \<mapsto> [7]]\<rparr>)\<rparr>"

definition broken_ledger_world :: world where
  "broken_ledger_world =
     fresh_world\<lparr>audiobooks := (\<lambda>b. empty_dir)
       (''T'' := \<lparr>manifest_json = Some Unparseable, audio = [''chunk_0000_p1.wav'' \<mapsto> [7]]\<rparr>)\<rparr>"

text \<open>A synthesizer that answers every request, and one whose first request times out.\<close>

definition good_services :: env where
  "good_services =
     \<lparr>extract_document = (\<lambda>name pdf. None), synthesize = (\<lambda>n t. TtsAudio [n])\<rparr>"

definition flaky_services :: env where
  "flaky_services =
     \<lparr>extract_document = (\<lambda>name pdf. None),
      synthesize = (\<lambda>n t. if n = 0 then TransportError else TtsAudio [n])\<rparr>"

text \<open>A world for the orchestrator: the document \<open>book.pdf\<close> is in the input directory,
  its raw extraction cache exists from an earlier run, and there is no citation manifest.
  The extractor of \<open>extracting_services\<close> reads a text from the document that differs
  from the cached one.\<close>

definition new_extraction :: raw_data where
  "new_extraction =
     example_data\<lparr>content := [\<lparr>page_number = 1, text_blocks = [''New text.'']\<rparr>]\<rparr>"

definition stale_cache_world :: world where
  "stale_cache_world =
     \<lparr>pdf_input = [''book.pdf'' \<mapsto> [37, 80, 68, 70]],
      pdf_cache = [''book_raw.json'' \<mapsto> RawCacheJson example_data],
      audiobooks = (\<lambda>b. empty_dir),
      tts_requests = [], extractor_calls = []\<rparr>"

definition extracting_services :: env where
  "extracting_services =
     \<lparr>extract_document = (\<lambda>name pdf. Some new_extraction),
      synthesize = (\<lambda>n t. TtsAudio [n])\<rparr>"

text \<open>A file system on which the write of the ledger in the self-healing branch fails and
  leaves no ledger file, all other writes succeeding.\<close>

definition failing_heal_disk :: disk where
  "failing_heal_disk = reliable_disk\<lparr>heal_write := (\<lambda>c. FailsLeaving None)\<rparr>"

text \<open>In \<open>unlisted_world\<close> both audio files of the book are on disk and there is no
  ledger.\<close>

definition unlisted_world :: world where
  "unlisted_world =
     fresh_world\<lparr>audiobooks := (\<lambda>b. empty_dir)
       (''T'' := \<lparr>manifest_json = None,
                  audio = [''chunk_0000_p1.wav'' \<mapsto> [6], ''chunk_0001_p1.wav'' \<mapsto> [7]]\<rparr>)\<rparr>"

section \<open>Theorems\<close>

subsection \<open>The Chunker keeps its invariants\<close>


lemma chained_append:
  "chained t0 (cs @ ds) t2 \<longleftrightarrow> (\<exists>t1. chained t0 cs t1 \<and> chained t1 ds t2)"
  by (induction cs arbitrary: t0) auto

lemma global_indices_snoc:
  "global_indices (cs @ [c]) = global_indices cs @ map global_index (sentences c)"
  by (simp add: global_indices_def)

lemma upt_split: "k \<le> (n::nat) \<Longrightarrow> [0..<n - k] @ [n - k..<n] = [0..<n]"
  by (metis le_add_diff_inverse2 upt_add_eq_append add.commute diff_le_self le0)

lemma close_chunk_fields:
  "global_sentence_index (close_chunk p b v) = global_sentence_index v"
  "current_chunk (close_chunk p b v) = current_chunk v"
  "current_chunk_chars (close_chunk p b v) = current_chunk_chars v"
  "chunk_sentences_data (close_chunk p b v) = chunk_sentences_data v"
  by (simp_all add: close_chunk_def Let_def)

lemma close_chunk_emitted:
  assumes "open_ok v" "current_chunk v \<noteq> []"
  shows "emitted_ok (tts_chunks (close_chunk p b v)) (global_sentence_index v)
           (estimated_total_time (close_chunk p b v))"
proof -
  from assms have ne: "chunk_sentences_data v \<noteq> []"
    by (auto simp: open_ok_def)
  from assms(1) have em: "emitted_ok (tts_chunks v)
          (global_sentence_index v - length (chunk_sentences_data v)) (estimated_total_time v)"
    by (simp add: open_ok_def)
  show ?thesis
    using assms(1) ne em
    by (simp add: open_ok_def emitted_ok_def close_chunk_def Let_def chained_append
        global_indices_snoc chunk_ok_def upt_split AVG_CHARS_PER_SECOND_def)
qed

lemma close_chunk_key:
  assumes "open_ok v"
  shows "map chunk_key (tts_chunks (close_chunk p b v)) =
           map chunk_key (tts_chunks v) @ [(p, b + 1, current_chunk v)]"
  using assms by (simp add: close_chunk_def Let_def chunk_key_def open_ok_def)

lemma flush_emitted:
  assumes "open_ok v"
  shows "emitted_ok (tts_chunks (flush p b v)) (global_sentence_index (flush p b v))
           (estimated_total_time (flush p b v))"
proof (cases "current_chunk v = []")
  case True
  with assms have "chunk_sentences_data v = []" by (auto simp: open_ok_def)
  with assms True show ?thesis by (simp add: flush_def open_ok_def)
next
  case False
  with assms show ?thesis
    by (simp add: flush_def close_chunk_emitted close_chunk_fields)
qed

lemma flush_key:
  assumes "open_ok v"
  shows "map chunk_key (tts_chunks (flush p b v)) =
           map chunk_key (tts_chunks v) @ map (\<lambda>g. (p, b + 1, g)) (closed_chunk (current_chunk v))"
  using assms by (simp add: flush_def close_chunk_key closed_chunk_def)

lemma add_sentence_open_ok:
  assumes "open_ok v"
  shows "open_ok (add_sentence mx p b v s)"
proof (cases "strip s = []")
  case True
  with assms show ?thesis by (simp add: add_sentence_def)
next
  case ne: False
  show ?thesis
  proof (cases "current_chunk_chars v + (int (length (strip s)) + 1) < mx")
    case True
    with ne assms show ?thesis
      by (simp add: add_sentence_def Let_def open_ok_def chunk_chars_def Suc_diff_le)
  next
    case over: False
    show ?thesis
    proof (cases "current_chunk v = []")
      case True
      with assms have "chunk_sentences_data v = []" by (auto simp: open_ok_def)
      with True ne over assms show ?thesis
        by (simp add: add_sentence_def Let_def open_ok_def chunk_chars_def)
    next
      case False
      with ne over close_chunk_emitted [OF assms False, of p b] show ?thesis
        by (simp add: add_sentence_def Let_def open_ok_def chunk_chars_def close_chunk_fields)
    qed
  qed
qed

lemma sentence_loop_key:
  assumes "open_ok v"
  shows "map chunk_key (tts_chunks (flush p b (foldl (add_sentence mx p b) v ss))) =
           map chunk_key (tts_chunks v) @
           map (\<lambda>g. (p, b + 1, g))
             (greedy_chunks mx (current_chunk v) (filter (\<lambda>s. s \<noteq> []) (map strip ss)))"
  using assms
proof (induction ss arbitrary: v)
  case Nil
  then show ?case by (simp add: flush_key)
next
  case (Cons s ss)
  have ok: "open_ok (add_sentence mx p b v s)"
    by (rule add_sentence_open_ok [OF Cons.prems])
  note IH = Cons.IH [OF ok]
  show ?case
  proof (cases "strip s = []")
    case True
    with IH show ?thesis by (simp add: add_sentence_def)
  next
    case ne: False
    from Cons.prems have cc: "current_chunk_chars v = chunk_chars (current_chunk v)"
      by (simp add: open_ok_def)
    show ?thesis
    proof (cases "chunk_chars (current_chunk v) + int (length (strip s)) + 1 < mx")
      case True
      with ne cc have "tts_chunks (add_sentence mx p b v s) = tts_chunks v"
        "current_chunk (add_sentence mx p b v s) = current_chunk v @ [strip s]"
        by (simp_all add: add_sentence_def Let_def)
      with IH ne True show ?thesis by simp
    next
      case False
      with ne cc have "map chunk_key (tts_chunks (add_sentence mx p b v s)) =
           map chunk_key (tts_chunks v) @ map (\<lambda>g. (p, b + 1, g)) (closed_chunk (current_chunk v))"
        "current_chunk (add_sentence mx p b v s) = [strip s]"
        using close_chunk_key [OF Cons.prems, of p b]
        by (simp_all add: add_sentence_def Let_def closed_chunk_def close_chunk_fields)
      with IH ne False show ?thesis by simp
    qed
  qed
qed

lemma sentence_loop_open_ok:
  "open_ok v \<Longrightarrow> open_ok (foldl (add_sentence mx p b) v ss)"
  by (induction ss arbitrary: v) (simp_all add: add_sentence_open_ok)

lemma process_block_eq:
  "process_block mx p v ib =
     flush p (fst ib) (foldl (add_sentence mx p (fst ib))
       (v\<lparr>current_chunk := [], current_chunk_chars := 0, chunk_sentences_data := []\<rparr>)
       (re_split_sentences (snd ib)))"
  by (simp add: process_block_def flush_def Let_def)

lemma reset_open_ok:
  "block_ok v \<Longrightarrow> open_ok (v\<lparr>current_chunk := [], current_chunk_chars := 0, chunk_sentences_data := []\<rparr>)"
  by (simp add: block_ok_def open_ok_def chunk_chars_def)

lemma process_block_ok:
  assumes "block_ok v"
  shows "block_ok (process_block mx p v ib)"
  unfolding process_block_eq block_ok_def
  by (intro flush_emitted sentence_loop_open_ok reset_open_ok assms)

lemma process_block_key:
  assumes "block_ok v"
  shows "map chunk_key (tts_chunks (process_block mx p v ib)) =
           map chunk_key (tts_chunks v) @ block_chunks mx (p, ib)"
  unfolding process_block_eq
  by (simp add: sentence_loop_key [OF reset_open_ok [OF assms]] block_chunks_def block_sentences_def)

lemma block_loop_ok:
  "block_ok v \<Longrightarrow> block_ok (foldl (process_block mx p) v ibs)"
  by (induction ibs arbitrary: v) (simp_all add: process_block_ok)

lemma block_loop_key:
  "block_ok v \<Longrightarrow>
   map chunk_key (tts_chunks (foldl (process_block mx p) v ibs)) =
     map chunk_key (tts_chunks v) @ concat (map (\<lambda>ib. block_chunks mx (p, ib)) ibs)"
  by (induction ibs arbitrary: v) (simp_all add: process_block_ok process_block_key)

lemma process_page_ok: "block_ok v \<Longrightarrow> block_ok (process_page mx v pd)"
  by (simp add: process_page_def block_loop_ok)

lemma process_page_key:
  "block_ok v \<Longrightarrow>
   map chunk_key (tts_chunks (process_page mx v pd)) =
     map chunk_key (tts_chunks v) @ concat (map (block_chunks mx) (page_blocks pd))"
  by (simp add: process_page_def block_loop_key page_blocks_def comp_def)

lemma page_loop_ok: "block_ok v \<Longrightarrow> block_ok (foldl (process_page mx) v pds)"
  by (induction pds arbitrary: v) (simp_all add: process_page_ok)

lemma page_loop_key:
  "block_ok v \<Longrightarrow>
   map chunk_key (tts_chunks (foldl (process_page mx) v pds)) =
     map chunk_key (tts_chunks v) @ concat (map (block_chunks mx) (concat (map page_blocks pds)))"
  by (induction pds arbitrary: v) (simp_all add: process_page_ok process_page_key)

lemma initial_block_ok: "block_ok initial_vars"
  by (simp add: block_ok_def initial_vars_def emitted_ok_def global_indices_def)

lemma chunk_loop_ok: "block_ok (chunk_loop mx data)"
  by (simp add: chunk_loop_def page_loop_ok initial_block_ok)

lemma chunk_loop_key:
  "map chunk_key (tts_chunks (chunk_loop mx data)) = concat (map (block_chunks mx) (all_blocks data))"
  using page_loop_key [OF initial_block_ok, of mx "content data"]
  by (simp add: chunk_loop_def all_blocks_def) (simp add: initial_vars_def)

subsection \<open>The time axis\<close>

lemma chained_start: "chained t0 cs t1 \<Longrightarrow> cs \<noteq> [] \<Longrightarrow> start_time (hd cs) = t0"
  by (cases cs) auto

lemma chained_each:
  "chained t0 cs t1 \<Longrightarrow> c \<in> set cs \<Longrightarrow>
     end_time c = start_time c + duration_seconds c \<and> 0 \<le> duration_seconds c"
  by (induction cs arbitrary: t0) auto

lemma chained_tail: "chained t0 (c # cs) t1 \<Longrightarrow> chained (end_time c) cs t1"
  unfolding chained.simps by blast

lemma chained_head_le: "chained t0 (c # cs) t1 \<Longrightarrow> start_time c = t0 \<and> t0 \<le> end_time c"
  by simp

lemma chained_adjacent:
  "chained t0 cs t1 \<Longrightarrow> Suc i < length cs \<Longrightarrow> end_time (cs ! i) = start_time (cs ! Suc i)"
proof (induction cs arbitrary: t0 i)
  case Nil
  then show ?case by simp
next
  case (Cons c cs)
  note rest = chained_tail [OF Cons.prems(1)]
  show ?case
  proof (cases i)
    case 0
    with Cons.prems(2) have "cs \<noteq> []" by auto
    from chained_start [OF rest this] 0 show ?thesis by (simp add: hd_conv_nth \<open>cs \<noteq> []\<close>)
  next
    case (Suc k)
    with Cons.prems(2) have "Suc k < length cs" by simp
    from Cons.IH [OF rest this] Suc show ?thesis by simp
  qed
qed

lemma chained_le: "chained t0 cs t1 \<Longrightarrow> t0 \<le> t1"
proof (induction cs arbitrary: t0)
  case Nil
  then show ?case by simp
next
  case (Cons c cs)
  from Cons.IH [OF chained_tail [OF Cons.prems]] chained_head_le [OF Cons.prems]
  show ?case by linarith
qed

lemma chained_bounds:
  "chained t0 cs t1 \<Longrightarrow> c \<in> set cs \<Longrightarrow> t0 \<le> start_time c \<and> end_time c \<le> t1"
proof (induction cs arbitrary: t0)
  case Nil
  then show ?case by simp
next
  case (Cons d cs)
  note rest = chained_tail [OF Cons.prems(1)]
  note hd = chained_head_le [OF Cons.prems(1)]
  show ?case
  proof (cases "c = d")
    case True
    with chained_le [OF rest] hd show ?thesis by simp
  next
    case False
    with Cons.prems have "c \<in> set cs" by simp
    from Cons.IH [OF rest this] hd show ?thesis by linarith
  qed
qed

lemma chained_mono:
  "chained t0 cs t1 \<Longrightarrow> i \<le> j \<Longrightarrow> j < length cs \<Longrightarrow> start_time (cs ! i) \<le> start_time (cs ! j)"
proof (induction cs arbitrary: t0 i j)
  case Nil
  then show ?case by simp
next
  case (Cons c cs)
  note rest = chained_tail [OF Cons.prems(1)]
  note hd = chained_head_le [OF Cons.prems(1)]
  show ?case
  proof (cases i)
    case i0: 0
    show ?thesis
    proof (cases j)
      case 0
      with i0 show ?thesis by simp
    next
      case (Suc k)
      with Cons.prems(3) have "cs ! k \<in> set cs" by simp
      from chained_bounds [OF rest this] hd i0 Suc show ?thesis by simp
    qed
  next
    case (Suc k)
    with Cons.prems(2) obtain l where j: "j = Suc l" and "k \<le> l" by (cases j) auto
    with Cons.prems(3) have "l < length cs" by simp
    from Cons.IH [OF rest \<open>k \<le> l\<close> this] Suc j show ?thesis by simp
  qed
qed

subsection \<open>The greedy rule\<close>

lemma chunk_chars_snoc: "chunk_chars (cur @ [s]) = chunk_chars cur + int (length s) + 1"
  by (simp add: chunk_chars_def)

lemma chunk_chars_nonneg: "0 \<le> chunk_chars cur"
  unfolding chunk_chars_def by (induction cur) auto

lemma chunk_chars_Cons: "chunk_chars (x # cur) = int (length x) + 1 + chunk_chars cur"
  by (simp add: chunk_chars_def)

lemma chunk_chars_ge: "s \<in> set cur \<Longrightarrow> int (length s) + 1 \<le> chunk_chars cur"
proof (induction cur)
  case Nil
  then show ?case by simp
next
  case (Cons x cur)
  then show ?case
    using chunk_chars_nonneg [of cur] by (auto simp: chunk_chars_Cons)
qed

lemma greedy_concat: "concat (greedy_chunks mx cur ss) = cur @ ss"
  by (induction ss arbitrary: cur) (auto simp: closed_chunk_def)

lemma greedy_nonempty: "[] \<notin> set (greedy_chunks mx cur ss)"
  by (induction ss arbitrary: cur) (auto simp: closed_chunk_def)

lemma greedy_oversize:
  assumes "\<forall>s\<in>set cur. mx \<le> int (length s) + 1 \<longrightarrow> cur = [s]"
    and "g \<in> set (greedy_chunks mx cur ss)" and "s \<in> set g" and "mx \<le> int (length s) + 1"
  shows "g = [s]"
  using assms
proof (induction ss arbitrary: cur)
  case Nil
  then show ?case by (auto simp: closed_chunk_def split: if_splits)
next
  case (Cons x ss)
  show ?case
  proof (cases "chunk_chars cur + int (length x) + 1 < mx")
    case True
    have "\<forall>s\<in>set (cur @ [x]). mx \<le> int (length s) + 1 \<longrightarrow> cur @ [x] = [s]"
    proof (intro ballI impI)
      fix s assume "s \<in> set (cur @ [x])" and big: "mx \<le> int (length s) + 1"
      then have "int (length s) + 1 \<le> chunk_chars (cur @ [x])"
        by (intro chunk_chars_ge)
      with True big have False by (simp add: chunk_chars_snoc)
      then show "cur @ [x] = [s]" ..
    qed
    from Cons.IH [OF this] Cons.prems(2-4) True show ?thesis by simp
  next
    case False
    with Cons.prems(2) consider "g \<in> set (closed_chunk cur)" | "g \<in> set (greedy_chunks mx [x] ss)"
      by auto
    then show ?thesis
    proof cases
      case 1
      then have "g = cur" by (auto simp: closed_chunk_def split: if_splits)
      with Cons.prems show ?thesis by simp
    next
      case 2
      have "\<forall>s\<in>set [x]. mx \<le> int (length s) + 1 \<longrightarrow> [x] = [s]" by simp
      from Cons.IH [OF this 2] Cons.prems(3,4) show ?thesis by simp
    qed
  qed
qed

subsection \<open>The example, evaluated\<close>

lemma example_chunk_keys:
  "map chunk_key (tts_chunks (chunk_loop 15 example_data)) =
     [(1, 1, [''Hello world.'']), (1, 1, [''This is a test!'']),
      (1, 1, [''Another sentence?'']), (1, 2, [''A.'', ''B.''])]"
  by code_simp


lemma example_chunks:
  "tts_chunks (chunk_loop 15 example_data) =
     [\<lparr>chunk_id = 0, chunk_text = ''Hello world.'', page = 1, block_index = 1,
       sentences = [\<lparr>global_index = 0, sentence_in_block = 0, sentence_text = ''Hello world.''\<rparr>],
       start_time = 0, duration_seconds = 6 / 7, end_time = 6 / 7\<rparr>,
      \<lparr>chunk_id = 1, chunk_text = ''This is a test!'', page = 1, block_index = 1,
       sentences = [\<lparr>global_index = 1, sentence_in_block = 0, sentence_text = ''This is a test!''\<rparr>],
       start_time = 6 / 7, duration_seconds = 15 / 14, end_time = 27 / 14\<rparr>,
      \<lparr>chunk_id = 2, chunk_text = ''Another sentence?'', page = 1, block_index = 1,
       sentences = [\<lparr>global_index = 2, sentence_in_block = 0, sentence_text = ''Another sentence?''\<rparr>],
       start_time = 27 / 14, duration_seconds = 17 / 14, end_time = 22 / 7\<rparr>,
      \<lparr>chunk_id = 3, chunk_text = ''A. B.'', page = 1, block_index = 2,
       sentences = [\<lparr>global_index = 3, sentence_in_block = 0, sentence_text = ''A.''\<rparr>,
                    \<lparr>global_index = 4, sentence_in_block = 1, sentence_text = ''B.''\<rparr>],
       start_time = 22 / 7, duration_seconds = 5 / 14, end_time = 7 / 2\<rparr>]"
  by code_simp

lemma example_total: "global_sentence_index (chunk_loop 15 example_data) = 5"
  by code_simp

subsection \<open>The manifest of the Chunker\<close>

lemma build_chunks [simp]:
  "chunks (build_citation_data mx stem_title data) = tts_chunks (chunk_loop mx data)"
  by (simp add: build_citation_data_def Let_def)

lemma build_total_sentences [simp]:
  "total_sentences (processing (build_citation_data mx stem_title data)) =
     global_sentence_index (chunk_loop mx data)"
  by (simp add: build_citation_data_def Let_def)

lemma chunk_loop_emitted:
  "emitted_ok (tts_chunks (chunk_loop mx data)) (global_sentence_index (chunk_loop mx data))
     (estimated_total_time (chunk_loop mx data))"
  using chunk_loop_ok [of mx data] by (simp add: block_ok_def)

text \<open>
  Claim C1. In every manifest the Chunker builds, the first chunk starts at time 0; every
  chunk ends at its start plus its duration; each chunk ends where the next one in the
  list starts (the list runs through all blocks and pages); the start times never
  decrease along the list; and the list order is the order of the chunk ids, the chunk
  at position \<open>i\<close> having id \<open>i\<close>. Times are exact rationals here.
\<close>

theorem time_axis_contiguous:
  "let cs = chunks (build_citation_data max_chars stem_title data)
   in (cs \<noteq> [] \<longrightarrow> start_time (hd cs) = 0)
      \<and> (\<forall>c\<in>set cs. end_time c = start_time c + duration_seconds c)
      \<and> (\<forall>i. Suc i < length cs \<longrightarrow> end_time (cs ! i) = start_time (cs ! Suc i))
      \<and> (\<forall>i j. i \<le> j \<longrightarrow> j < length cs \<longrightarrow> start_time (cs ! i) \<le> start_time (cs ! j))
      \<and> (\<forall>i<length cs. chunk_id (cs ! i) = i)"
proof -
  let ?v = "chunk_loop max_chars data"
  let ?cs = "tts_chunks ?v"
  have ch: "chained 0 ?cs (estimated_total_time ?v)"
    and ids: "map chunk_id ?cs = [0..<length ?cs]"
    using chunk_loop_emitted [of max_chars data] by (simp_all add: emitted_ok_def)
  have 1: "?cs \<noteq> [] \<longrightarrow> start_time (hd ?cs) = 0"
    using chained_start [OF ch] by simp
  have 2: "\<forall>c\<in>set ?cs. end_time c = start_time c + duration_seconds c"
    using chained_each [OF ch] by blast
  have 3: "\<forall>i. Suc i < length ?cs \<longrightarrow> end_time (?cs ! i) = start_time (?cs ! Suc i)"
    using chained_adjacent [OF ch] by blast
  have 4: "\<forall>i j. i \<le> j \<longrightarrow> j < length ?cs \<longrightarrow> start_time (?cs ! i) \<le> start_time (?cs ! j)"
    using chained_mono [OF ch] by blast
  have 5: "\<forall>i<length ?cs. chunk_id (?cs ! i) = i"
  proof (intro allI impI)
    fix i assume i: "i < length ?cs"
    then have "chunk_id (?cs ! i) = map chunk_id ?cs ! i" by simp
    also have "\<dots> = i" using i by (simp only: ids) simp
    finally show "chunk_id (?cs ! i) = i" .
  qed
  from 1 2 3 4 5 show ?thesis by (simp add: Let_def)
qed

theorem time_axis_contiguous_witness:
  "let cs = chunks (build_citation_data 15 ''book'' example_data)
   in length cs = 4 \<and> start_time (hd cs) = 0
      \<and> end_time (cs ! 1) = start_time (cs ! 1) + duration_seconds (cs ! 1)
      \<and> end_time (cs ! 2) = start_time (cs ! 3)
      \<and> start_time (cs ! 0) \<le> start_time (cs ! 3)
      \<and> chunk_id (cs ! 2) = 2"
proof -
  let ?cs = "chunks (build_citation_data 15 ''book'' example_data)"
  have len: "length ?cs = 4" by (simp add: example_chunks)
  then have ne: "?cs \<noteq> []" and mem: "?cs ! 1 \<in> set ?cs" by auto
  note T = time_axis_contiguous [of 15 "''book''" example_data, unfolded Let_def]
  from T ne have a: "start_time (hd ?cs) = 0" by blast
  from T mem have b: "end_time (?cs ! 1) = start_time (?cs ! 1) + duration_seconds (?cs ! 1)"
    by blast
  from T have "Suc 2 < length ?cs \<longrightarrow> end_time (?cs ! 2) = start_time (?cs ! Suc 2)" by blast
  with len have c: "end_time (?cs ! 2) = start_time (?cs ! 3)" by (simp add: numeral_3_eq_3)
  from T have "0 \<le> (3::nat) \<longrightarrow> 3 < length ?cs \<longrightarrow> start_time (?cs ! 0) \<le> start_time (?cs ! 3)"
    by blast
  with len have d: "start_time (?cs ! 0) \<le> start_time (?cs ! 3)" by simp
  from T have "2 < length ?cs \<longrightarrow> chunk_id (?cs ! 2) = 2" by blast
  with len have e: "chunk_id (?cs ! 2) = 2" by simp
  from len a b c d e show ?thesis by (simp add: Let_def)
qed

lemma chunk_loop_chunk_ok: "c \<in> set (tts_chunks (chunk_loop mx data)) \<Longrightarrow> chunk_ok c"
  using chunk_loop_emitted [of mx data] by (simp add: emitted_ok_def list_all_iff)

text \<open>
  Claim C3. The chunks of a manifest, read as (page, block ordinal, sentence texts), are
  the chunks the greedy rule gives for the first block, then those for the second, and so
  on through the document: every chunk comes from one block, and a new block never
  continues the chunk of the block before it, whatever the sizes. Within a block the
  chunks taken together are the non-empty sentences of the block, all of them, in order
  and unchanged; no chunk is empty; and a sentence whose length plus one reaches
  \<open>max_chars\<close> is the only sentence of its chunk.
\<close>

theorem chunks_are_greedy_per_block:
  "map chunk_key (chunks (build_citation_data max_chars stem_title data)) =
     concat (map (block_chunks max_chars) (all_blocks data))
   \<and> (\<forall>pib\<in>set (all_blocks data).
        concat (map (\<lambda>k. snd (snd k)) (block_chunks max_chars pib)) = block_sentences (snd (snd pib))
        \<and> (\<forall>k\<in>set (block_chunks max_chars pib).
             fst k = fst pib \<and> fst (snd k) = fst (snd pib) + 1 \<and> snd (snd k) \<noteq> []
             \<and> (\<forall>s\<in>set (snd (snd k)). max_chars \<le> int (length s) + 1 \<longrightarrow> snd (snd k) = [s])))"
proof -
  have key: "map chunk_key (chunks (build_citation_data max_chars stem_title data)) =
     concat (map (block_chunks max_chars) (all_blocks data))"
    by (simp add: chunk_loop_key)
  have blk: "concat (map (\<lambda>k. snd (snd k)) (block_chunks max_chars pib)) = block_sentences (snd (snd pib))
        \<and> (\<forall>k\<in>set (block_chunks max_chars pib).
             fst k = fst pib \<and> fst (snd k) = fst (snd pib) + 1 \<and> snd (snd k) \<noteq> []
             \<and> (\<forall>s\<in>set (snd (snd k)). max_chars \<le> int (length s) + 1 \<longrightarrow> snd (snd k) = [s]))"
    for pib
  proof -
    let ?gs = "greedy_chunks max_chars [] (block_sentences (snd (snd pib)))"
    have a: "concat (map (\<lambda>k. snd (snd k)) (block_chunks max_chars pib)) = concat ?gs"
      by (simp add: block_chunks_def comp_def)
    have b: "snd (snd k) \<noteq> []" if "k \<in> set (block_chunks max_chars pib)" for k
      using that greedy_nonempty [of max_chars "[]" "block_sentences (snd (snd pib))"]
      by (auto simp: block_chunks_def)
    have c: "snd (snd k) = [s]"
      if "k \<in> set (block_chunks max_chars pib)" "s \<in> set (snd (snd k))"
        "max_chars \<le> int (length s) + 1" for k s
    proof -
      from that(1) have "snd (snd k) \<in> set ?gs" by (auto simp: block_chunks_def)
      with that(2,3) show ?thesis
        by (intro greedy_oversize [where cur = "[]"]) simp_all
    qed
    have d: "fst k = fst pib \<and> fst (snd k) = fst (snd pib) + 1"
      if "k \<in> set (block_chunks max_chars pib)" for k
      using that by (auto simp: block_chunks_def)
    from a b c d show ?thesis by (simp add: greedy_concat)
  qed
  from key blk show ?thesis by blast
qed

lemma example_blocks:
  "all_blocks example_data =
     [(1, 0, ''Hello world. This is a test! Another sentence?''), (1, 1, ''A. B.'')]"
  by code_simp

lemma example_all_block_chunks:
  "concat (map (block_chunks 15) (all_blocks example_data)) =
     [(1, 1, [''Hello world.'']), (1, 1, [''This is a test!'']),
      (1, 1, [''Another sentence?'']), (1, 2, [''A.'', ''B.''])]"
  by code_simp

lemma example_first_block_sentences:
  "concat (map (\<lambda>k. snd (snd k))
     (block_chunks 15 (1, 0, ''Hello world. This is a test! Another sentence?''))) =
     [''Hello world.'', ''This is a test!'', ''Another sentence?'']"
  by code_simp

theorem chunks_are_greedy_per_block_witness:
  "map chunk_key (chunks (build_citation_data 15 ''book'' example_data)) =
     [(1, 1, [''Hello world.'']), (1, 1, [''This is a test!'']),
      (1, 1, [''Another sentence?'']), (1, 2, [''A.'', ''B.''])]
   \<and> block_sentences ''Hello world. This is a test! Another sentence?'' =
       [''Hello world.'', ''This is a test!'', ''Another sentence?'']"
proof -
  let ?b = "(1::nat, 0::nat, ''Hello world. This is a test! Another sentence?'')"
  note T = chunks_are_greedy_per_block [of 15 "''book''" example_data]
  have mem: "?b \<in> set (all_blocks example_data)" by (simp add: example_blocks)
  from T have "map chunk_key (chunks (build_citation_data 15 ''book'' example_data)) =
     concat (map (block_chunks 15) (all_blocks example_data))" by blast
  then have a: "map chunk_key (chunks (build_citation_data 15 ''book'' example_data)) =
     [(1, 1, [''Hello world.'']), (1, 1, [''This is a test!'']),
      (1, 1, [''Another sentence?'']), (1, 2, [''A.'', ''B.''])]"
    by (simp only: example_all_block_chunks)
  from T mem have "concat (map (\<lambda>k. snd (snd k)) (block_chunks 15 ?b)) = block_sentences (snd (snd ?b))"
    by blast
  then have b: "block_sentences ''Hello world. This is a test! Another sentence?'' =
       [''Hello world.'', ''This is a test!'', ''Another sentence?'']"
    by (simp only: example_first_block_sentences snd_conv)
  from a b show ?thesis by (rule conjI)
qed

text \<open>
  Claim C4. In every manifest the Chunker builds, the global indices read chunk by chunk
  in list order (which is the order of the chunk ids) and sentence by sentence within a
  chunk are 0, 1, 2, ... up to \<open>total_sentences - 1\<close>; the local positions within each
  chunk are 0, 1, ... in order; and \<open>total_sentences\<close> is the number of sentences in the
  chunks.
\<close>

theorem global_index_dense:
  "let m = build_citation_data max_chars stem_title data
   in global_indices (chunks m) = [0..<total_sentences (processing m)]
      \<and> (\<forall>c\<in>set (chunks m). map sentence_in_block (sentences c) = [0..<length (sentences c)])
      \<and> total_sentences (processing m) = length (concat (map sentences (chunks m)))
      \<and> map chunk_id (chunks m) = [0..<length (chunks m)]"
proof -
  let ?v = "chunk_loop max_chars data"
  have gi: "global_indices (tts_chunks ?v) = [0..<global_sentence_index ?v]"
    and ids: "map chunk_id (tts_chunks ?v) = [0..<length (tts_chunks ?v)]"
    using chunk_loop_emitted [of max_chars data] by (simp_all add: emitted_ok_def)
  have loc: "\<forall>c\<in>set (tts_chunks ?v). map sentence_in_block (sentences c) = [0..<length (sentences c)]"
    using chunk_loop_chunk_ok [of _ max_chars data] by (simp add: chunk_ok_def)
  have "length (global_indices cs) = length (concat (map sentences cs))" for cs
    by (simp add: global_indices_def length_concat comp_def)
  from this [of "tts_chunks ?v"] gi
  have tot: "global_sentence_index ?v = length (concat (map sentences (tts_chunks ?v)))"
    by simp
  from gi ids loc tot show ?thesis by (simp add: Let_def)
qed

theorem global_index_dense_witness:
  "let m = build_citation_data 15 ''book'' example_data
   in global_indices (chunks m) = [0, 1, 2, 3, 4]
      \<and> total_sentences (processing m) = 5
      \<and> map sentence_in_block (sentences (chunks m ! 3)) = [0, 1]"
proof -
  let ?m = "build_citation_data 15 ''book'' example_data"
  note T = global_index_dense [of 15 "''book''" example_data, unfolded Let_def]
  have tot: "total_sentences (processing ?m) = 5" by (simp add: example_total)
  have mem: "chunks ?m ! 3 \<in> set (chunks ?m)" by (simp add: example_chunks)
  have len: "length (sentences (chunks ?m ! 3)) = 2" by (simp add: example_chunks)
  from T have "global_indices (chunks ?m) = [0..<total_sentences (processing ?m)]" by blast
  with tot have a: "global_indices (chunks ?m) = [0, 1, 2, 3, 4]"
    by (simp add: upt_rec)
  from T mem have "map sentence_in_block (sentences (chunks ?m ! 3)) =
      [0..<length (sentences (chunks ?m ! 3))]" by blast
  with len have b: "map sentence_in_block (sentences (chunks ?m ! 3)) = [0, 1]"
    by (simp add: upt_rec)
  from a b tot show ?thesis by (simp add: Let_def)
qed

text \<open>
  Claim C10. The text of every chunk of a manifest the Chunker builds is the texts of its
  sentences, in order, joined by single spaces.
\<close>

theorem chunk_text_is_joined_sentences:
  "\<forall>c\<in>set (chunks (build_citation_data max_chars stem_title data)).
     chunk_text c = str_join '' '' (map sentence_text (sentences c))"
  using chunk_loop_chunk_ok [of _ max_chars data] by (simp add: chunk_ok_def)

theorem chunk_text_is_joined_sentences_witness:
  "chunk_text (chunks (build_citation_data 15 ''book'' example_data) ! 3) = ''A. B.''
   \<and> map sentence_text (sentences (chunks (build_citation_data 15 ''book'' example_data) ! 3)) =
       [''A.'', ''B.'']"
proof -
  let ?cs = "chunks (build_citation_data 15 ''book'' example_data)"
  have mem: "?cs ! 3 \<in> set ?cs" by (simp add: example_chunks)
  have st: "map sentence_text (sentences (?cs ! 3)) = [''A.'', ''B.'']"
    by (simp add: example_chunks)
  from chunk_text_is_joined_sentences [of 15 "''book''" example_data] mem
  have "chunk_text (?cs ! 3) = str_join '' '' (map sentence_text (sentences (?cs ! 3)))"
    by blast
  with st show ?thesis by simp
qed

subsection \<open>Rounding\<close>

lemma pow2_pos [simp]: "0 < pow2 k"
  by (simp add: pow2_def zero_less_power_int)

lemma pow2_nonzero [simp]: "pow2 k \<noteq> 0"
  by (metis less_irrefl pow2_pos)

lemma pow2_nonneg [simp]: "0 \<le> pow2 k"
  by (rule less_imp_le) (rule pow2_pos)

lemma pow2_not_le_zero [simp]: "\<not> pow2 k \<le> 0" "\<not> pow2 k < 0"
  using pow2_pos [of k] by (simp_all only: not_le not_less less_imp_le)

lemma pow2_add: "pow2 (a + b) = pow2 a * pow2 b"
  by (simp add: pow2_def power_int_add)

lemma pow2_diff: "pow2 (a - b) = pow2 a / pow2 b"
  by (simp add: pow2_def power_int_diff)

lemma pow2_mono: "a \<le> b \<Longrightarrow> pow2 a \<le> pow2 b"
  by (simp add: pow2_def power_int_increasing)

lemma pow2_strict_mono: "a < b \<Longrightarrow> pow2 a < pow2 b"
  by (simp add: pow2_def power_int_strict_increasing)

lemma pow2_less_cancel: "pow2 a < pow2 b \<Longrightarrow> a < b"
  using pow2_mono [of b a] by (cases "a < b") simp_all

lemma pow2_nat: "pow2 (int n) = 2 ^ n"
  by (simp add: pow2_def)

lemma pow2_of_int: "0 \<le> k \<Longrightarrow> pow2 k = of_int (2 ^ nat k)"
  using pow2_nat [of "nat k"] by simp

lemma bit_length_pos: "0 < n \<Longrightarrow> 0 < bit_length n"
  by (subst bit_length.simps) simp

lemma bit_length_bounds:
  "0 < n \<Longrightarrow> 2 ^ (bit_length n - 1) \<le> n \<and> n < 2 ^ bit_length n"
proof (induction n rule: bit_length.induct)
  case (1 n)
  from "1.prems" have bl: "bit_length n = Suc (bit_length (n div 2))"
    by (subst bit_length.simps) simp
  show ?case
  proof (cases "n div 2 \<le> 0")
    case True
    with "1.prems" have "n = 1" by linarith
    then show ?thesis by (simp add: bit_length.simps)
  next
    case False
    then have pos: "0 < n div 2" by simp
    from "1.prems" have "\<not> n \<le> 0" by simp
    from "1.IH" [OF this pos]
    have lo: "2 ^ (bit_length (n div 2) - 1) \<le> n div 2"
      and hi: "n div 2 < 2 ^ bit_length (n div 2)" by simp_all
    from bit_length_pos [OF pos] have b1: "bit_length (n div 2) = Suc (bit_length (n div 2) - 1)"
      by simp
    have "(2::int) ^ bit_length (n div 2) = 2 * 2 ^ (bit_length (n div 2) - 1)"
      by (subst b1) simp
    also have "\<dots> \<le> 2 * (n div 2)" using lo by simp
    also have "\<dots> \<le> n" by linarith
    finally have A: "2 ^ (bit_length n - 1) \<le> n" by (simp add: bl)
    from hi have "n div 2 + 1 \<le> 2 ^ bit_length (n div 2)" by simp
    then have "2 * (n div 2 + 1) \<le> 2 * 2 ^ bit_length (n div 2)" by simp
    moreover have "n < 2 * (n div 2 + 1)" by presburger
    ultimately have B: "n < 2 ^ bit_length n" by (simp add: bl)
    from A B show ?thesis ..
  qed
qed

lemma bit_length_pow2:
  assumes "0 < n"
  shows "pow2 (int (bit_length n) - 1) \<le> of_int n" and "of_int n < pow2 (int (bit_length n))"
proof -
  from bit_length_pos [OF assms] have e: "int (bit_length n) - 1 = int (bit_length n - 1)"
    by simp
  from bit_length_bounds [OF assms]
  have "(of_int (2 ^ (bit_length n - 1)) :: rat) \<le> of_int n"
    and "(of_int n :: rat) < of_int (2 ^ bit_length n)"
    by (simp_all only: of_int_le_iff of_int_less_iff)
  then show "pow2 (int (bit_length n) - 1) \<le> of_int n" "of_int n < pow2 (int (bit_length n))"
    by (simp_all add: e pow2_nat)
qed

lemma ilog2_bounds:
  assumes "0 < x"
  shows "pow2 (ilog2 x) \<le> x \<and> x < pow2 (ilog2 x + 1)"
proof -
  obtain p q where pq: "quotient_of x = (p, q)" by (cases "quotient_of x")
  from quotient_of_denom_pos [OF pq] have q: "0 < q" .
  from quotient_of_div [OF pq] have x: "x = of_int p / of_int q" .
  from assms x q have p: "0 < p" by (simp add: zero_less_divide_iff)
  define k where "k = int (bit_length p) - int (bit_length q)"
  have qr: "(0::rat) < of_int q" using q by simp
  have "x < pow2 (int (bit_length p)) / pow2 (int (bit_length q) - 1)"
  proof -
    have "x \<le> of_int p / pow2 (int (bit_length q) - 1)"
      unfolding x using bit_length_pow2(1) [OF q] p q
      by (intro divide_left_mono mult_pos_pos) (simp_all add: qr)
    also have "\<dots> < pow2 (int (bit_length p)) / pow2 (int (bit_length q) - 1)"
      using bit_length_pow2(2) [OF p] by (simp add: divide_strict_right_mono)
    finally show ?thesis .
  qed
  then have up: "x < pow2 (k + 1)"
    by (simp add: k_def pow2_diff [symmetric] algebra_simps)
  have "pow2 (int (bit_length p) - 1) / pow2 (int (bit_length q)) < x"
  proof -
    have "pow2 (int (bit_length p) - 1) / pow2 (int (bit_length q)) \<le>
          of_int p / pow2 (int (bit_length q))"
      using bit_length_pow2(1) [OF p] by (simp add: divide_right_mono)
    also have "\<dots> < x"
      unfolding x using bit_length_pow2(2) [OF q] p q
      by (intro divide_strict_left_mono mult_pos_pos) (simp_all add: qr)
    finally show ?thesis .
  qed
  then have lo: "pow2 (k - 1) < x"
    by (simp add: k_def pow2_diff [symmetric] algebra_simps)
  have il: "ilog2 x = (if pow2 k \<le> x then k else k - 1)"
    by (simp add: ilog2_def pq k_def Let_def)
  show ?thesis
  proof (cases "pow2 k \<le> x")
    case True
    with up il show ?thesis by simp
  next
    case False
    with lo il show ?thesis by simp
  qed
qed

lemma ilog2_unique:
  assumes "pow2 k \<le> x" and "x < pow2 (k + 1)"
  shows "ilog2 x = k"
proof -
  from assms(1) have pos: "0 < x" using pow2_pos [of k] by linarith
  note b = ilog2_bounds [OF pos]
  from b assms(2) have "pow2 (ilog2 x) < pow2 (k + 1)" by linarith
  then have 1: "ilog2 x < k + 1" by (rule pow2_less_cancel)
  from b assms(1) have "pow2 k < pow2 (ilog2 x + 1)" by linarith
  then have "k < ilog2 x + 1" by (rule pow2_less_cancel)
  with 1 show ?thesis by simp
qed

lemma ilog2_mono:
  assumes "0 < x" and "x \<le> y"
  shows "ilog2 x \<le> ilog2 y"
proof -
  from assms have y: "0 < y" by simp
  from ilog2_bounds [OF assms(1)] ilog2_bounds [OF y] assms(2)
  have "pow2 (ilog2 x) < pow2 (ilog2 y + 1)" by linarith
  then have "ilog2 x < ilog2 y + 1" by (rule pow2_less_cancel)
  then show ?thesis by simp
qed

lemma round_half_even_cases:
  "round_half_even y = \<lfloor>y\<rfloor> \<or> round_half_even y = \<lfloor>y\<rfloor> + 1"
  by (simp add: round_half_even_def Let_def)

lemma round_half_even_of_int [simp]: "round_half_even (of_int k) = k"
  by (simp add: round_half_even_def Let_def)

lemma round_half_even_power [simp]: "round_half_even (2 ^ n) = 2 ^ n"
  using round_half_even_of_int [of "2 ^ n"] by simp

lemma round_half_even_mono:
  assumes "a \<le> b"
  shows "round_half_even a \<le> round_half_even b"
proof (cases "\<lfloor>a\<rfloor> = \<lfloor>b\<rfloor>")
  case True
  from assms have "a - of_int \<lfloor>a\<rfloor> \<le> b - of_int \<lfloor>a\<rfloor>" by simp
  with True show ?thesis by (auto simp: round_half_even_def Let_def)
next
  case False
  with assms have "\<lfloor>a\<rfloor> < \<lfloor>b\<rfloor>" using floor_mono [OF assms] by linarith
  moreover have "round_half_even a \<le> \<lfloor>a\<rfloor> + 1" using round_half_even_cases [of a] by linarith
  moreover have "\<lfloor>b\<rfloor> \<le> round_half_even b" using round_half_even_cases [of b] by linarith
  ultimately show ?thesis by linarith
qed

lemma round_half_even_zero [simp]: "round_half_even 0 = 0"
  by (simp add: round_half_even_def)

lemma round_half_even_nonneg: "0 \<le> y \<Longrightarrow> 0 \<le> round_half_even y"
  using round_half_even_mono [of 0 y] by simp

lemma round_half_even_small: "0 \<le> y \<Longrightarrow> y < 1 / 2 \<Longrightarrow> round_half_even y = 0"
proof -
  assume a: "0 \<le> y" "y < 1 / 2"
  then have "\<lfloor>y\<rfloor> = 0" by (intro floor_unique) simp_all
  with a show ?thesis by (simp add: round_half_even_def)
qed

lemma fl_mag_nonneg: "0 \<le> fl_mag x"
proof (cases "x \<le> 0")
  case True
  then show ?thesis by (simp add: fl_mag_def)
next
  case False
  then have "0 \<le> x / pow2 (max (ilog2 x - 52) (- 1074))"
    by (intro divide_nonneg_nonneg) simp_all
  from round_half_even_nonneg [OF this] False show ?thesis
    by (simp add: fl_mag_def Let_def)
qed

lemma fl_mag_upper:
  assumes "0 < x"
  shows "fl_mag x \<le> pow2 (ilog2 x + 1)"
proof -
  define e where "e = max (ilog2 x - 52) (- 1074)"
  have val: "fl_mag x = of_int (round_half_even (x / pow2 e)) * pow2 e"
    using assms by (simp add: fl_mag_def Let_def e_def)
  show ?thesis
  proof (cases "e \<le> ilog2 x + 1")
    case True
    then have top: "pow2 (ilog2 x + 1 - e) = of_int (2 ^ nat (ilog2 x + 1 - e))"
      by (intro pow2_of_int) simp
    from ilog2_bounds [OF assms] have "x / pow2 e \<le> pow2 (ilog2 x + 1) / pow2 e"
      by (intro divide_right_mono) simp_all
    then have "x / pow2 e \<le> of_int (2 ^ nat (ilog2 x + 1 - e))"
      by (simp add: pow2_diff [symmetric] top)
    from round_half_even_mono [OF this]
    have "round_half_even (x / pow2 e) \<le> 2 ^ nat (ilog2 x + 1 - e)" by simp
    then have "(of_int (round_half_even (x / pow2 e)) :: rat) \<le> of_int (2 ^ nat (ilog2 x + 1 - e))"
      by (simp only: of_int_le_iff)
    then have "of_int (round_half_even (x / pow2 e)) * pow2 e \<le> pow2 (ilog2 x + 1 - e) * pow2 e"
      by (simp add: top)
    also have "\<dots> = pow2 (ilog2 x + 1)" by (simp add: pow2_add [symmetric])
    finally show ?thesis by (simp add: val)
  next
    case False
    then have "ilog2 x + 1 \<le> e - 1" by simp
    from pow2_mono [OF this] ilog2_bounds [OF assms] have "x < pow2 (e - 1)" by linarith
    then have "x / pow2 e < pow2 (e - 1) / pow2 e" by (intro divide_strict_right_mono) simp_all
    also have "pow2 (e - 1) / pow2 e = 1 / 2"
      by (simp add: pow2_diff [symmetric]) (simp add: pow2_def)
    finally have "x / pow2 e < 1 / 2" .
    moreover from assms have "0 \<le> x / pow2 e" by (intro divide_nonneg_nonneg) simp_all
    ultimately have "round_half_even (x / pow2 e) = 0" by (intro round_half_even_small)
    then show ?thesis by (simp add: val)
  qed
qed

lemma fl_mag_lower:
  assumes "0 < x" and "- 1074 \<le> ilog2 x"
  shows "pow2 (ilog2 x) \<le> fl_mag x"
proof -
  define e where "e = max (ilog2 x - 52) (- 1074)"
  have val: "fl_mag x = of_int (round_half_even (x / pow2 e)) * pow2 e"
    using assms by (simp add: fl_mag_def Let_def e_def)
  from assms(2) have ek: "e \<le> ilog2 x" by (simp add: e_def)
  then have bot: "pow2 (ilog2 x - e) = of_int (2 ^ nat (ilog2 x - e))"
    by (intro pow2_of_int) simp
  from ilog2_bounds [OF assms(1)] have "pow2 (ilog2 x) / pow2 e \<le> x / pow2 e"
    by (intro divide_right_mono) simp_all
  then have "of_int (2 ^ nat (ilog2 x - e)) \<le> x / pow2 e"
    by (simp add: pow2_diff [symmetric] bot)
  from round_half_even_mono [OF this]
  have "2 ^ nat (ilog2 x - e) \<le> round_half_even (x / pow2 e)" by simp
  then have "(of_int (2 ^ nat (ilog2 x - e)) :: rat) \<le> of_int (round_half_even (x / pow2 e))"
    by (simp only: of_int_le_iff)
  then have le: "pow2 (ilog2 x - e) * pow2 e \<le> of_int (round_half_even (x / pow2 e)) * pow2 e"
    by (simp add: bot)
  have "pow2 (ilog2 x) = pow2 (ilog2 x - e) * pow2 e" by (simp add: pow2_add [symmetric])
  also note le
  finally show ?thesis by (simp only: val)
qed

lemma fl_mag_mono:
  assumes "x \<le> y"
  shows "fl_mag x \<le> fl_mag y"
proof (cases "x \<le> 0")
  case True
  then show ?thesis using fl_mag_nonneg [of y] by (simp add: fl_mag_def)
next
  case False
  then have x: "0 < x" by simp
  with assms have y: "0 < y" by simp
  define ex where "ex = max (ilog2 x - 52) (- 1074)"
  define ey where "ey = max (ilog2 y - 52) (- 1074)"
  from ilog2_mono [OF x assms] have le: "ex \<le> ey" by (simp add: ex_def ey_def)
  show ?thesis
  proof (cases "ex = ey")
    case True
    from assms have "x / pow2 ex \<le> y / pow2 ex" by (intro divide_right_mono) simp_all
    from round_half_even_mono [OF this]
    have "(of_int (round_half_even (x / pow2 ex)) :: rat) \<le> of_int (round_half_even (y / pow2 ex))"
      by (simp only: of_int_le_iff)
    then have "of_int (round_half_even (x / pow2 ex)) * pow2 ex \<le>
               of_int (round_half_even (y / pow2 ex)) * pow2 ex"
      by simp
    with x y True show ?thesis by (simp add: fl_mag_def Let_def ex_def ey_def)
  next
    case False
    with le have "ex < ey" by simp
    then have lt: "ilog2 x < ilog2 y" and yn: "- 1074 \<le> ilog2 y"
      by (simp_all add: ex_def ey_def max_def split: if_splits)
    from fl_mag_upper [OF x] have "fl_mag x \<le> pow2 (ilog2 x + 1)" .
    also from lt have "\<dots> \<le> pow2 (ilog2 y)" by (intro pow2_mono) simp
    also from fl_mag_lower [OF y yn] have "\<dots> \<le> fl_mag y" .
    finally show ?thesis .
  qed
qed

lemma fl_nonneg: "0 \<le> x \<Longrightarrow> 0 \<le> fl x"
  by (simp add: fl_def fl_mag_nonneg)

lemma fl_mono:
  assumes "x \<le> y"
  shows "fl x \<le> fl y"
proof -
  consider (nn) "x < 0" "y < 0" | (np) "x < 0" "0 \<le> y" | (pp) "0 \<le> x" "0 \<le> y"
    using assms by linarith
  then show ?thesis
  proof cases
    case nn
    from assms have "- y \<le> - x" by simp
    from fl_mag_mono [OF this] nn show ?thesis by (simp add: fl_def)
  next
    case np
    then show ?thesis using fl_mag_nonneg [of "- x"] fl_mag_nonneg [of y] by (simp add: fl_def)
  next
    case pp
    with fl_mag_mono [OF assms] show ?thesis by (simp add: fl_def)
  qed
qed

lemma fl_pow2:
  assumes "- 1074 \<le> k"
  shows "fl (pow2 k) = pow2 k"
proof -
  have il: "ilog2 (pow2 k) = k"
    by (rule ilog2_unique) (simp_all add: pow2_strict_mono less_imp_le)
  define e where "e = max (k - 52) (- 1074)"
  have val: "fl (pow2 k) = of_int (round_half_even (pow2 k / pow2 e)) * pow2 e"
    by (simp add: fl_def fl_mag_def Let_def il e_def)
  from assms have "e \<le> k" by (simp add: e_def)
  then have p: "pow2 (k - e) = of_int (2 ^ nat (k - e))" by (intro pow2_of_int) simp
  then have "round_half_even (pow2 k / pow2 e) = 2 ^ nat (k - e)"
    by (simp add: pow2_diff [symmetric])
  then have "of_int (round_half_even (pow2 k / pow2 e)) * pow2 e = pow2 (k - e) * pow2 e"
    by (simp only: p)
  also have "\<dots> = pow2 k" by (simp add: pow2_add [symmetric])
  finally show ?thesis by (simp only: val)
qed

lemma fl_zero [simp]: "fl 0 = 0"
  by (simp add: fl_def fl_mag_def)

lemma fl_nonpos: "x \<le> 0 \<Longrightarrow> fl x \<le> 0"
  using fl_mono [of x 0] by simp

lemma fl_one [simp]: "fl 1 = 1"
  using fl_pow2 [of 0] by (simp add: pow2_def)

lemma pow2_numeral: "pow2 (numeral k) = 2 ^ numeral k"
  using pow2_nat [of "numeral k"] by simp

lemma fl_upper:
  assumes "0 < x"
  shows "fl x \<le> 2 * x"
proof -
  from fl_mag_upper [OF assms] have "fl x \<le> pow2 (ilog2 x + 1)"
    using assms by (simp add: fl_def)
  also have "\<dots> = 2 * pow2 (ilog2 x)" by (simp add: pow2_add) (simp add: pow2_def)
  also have "\<dots> \<le> 2 * x" using ilog2_bounds [OF assms] by simp
  finally show ?thesis .
qed

lemma ilog2_less: "0 < y \<Longrightarrow> y < pow2 k \<Longrightarrow> ilog2 y < k"
proof -
  assume y: "0 < y" and lt: "y < pow2 k"
  from ilog2_bounds [OF y] lt have "pow2 (ilog2 y) < pow2 k" by linarith
  then show ?thesis by (rule pow2_less_cancel)
qed

lemma round_f64_finite:
  assumes "0 \<le> x" and "fl x < pow2 1024"
  shows "round_f64 x = Finite (fl x)"
proof (cases "fl x = 0")
  case True
  then show ?thesis by (simp add: round_f64_def)
next
  case False
  with fl_nonneg [OF assms(1)] have pos: "0 < fl x" by simp
  from ilog2_less [OF pos assms(2)] pos False show ?thesis
    by (simp add: round_f64_def Let_def)
qed

lemma round_f64_nonneg:
  assumes "0 \<le> x"
  shows "round_f64 x = PosInf \<or> (\<exists>y. round_f64 x = Finite y \<and> 0 \<le> y)"
  using fl_nonneg [OF assms] by (auto simp: round_f64_def Let_def)

lemma round_f64_nonpos:
  assumes "x \<le> 0"
  shows "round_f64 x = NegInf \<or> (\<exists>y. round_f64 x = Finite y \<and> y \<le> 0)"
  using fl_nonpos [OF assms] by (auto simp: round_f64_def Let_def)

lemma round_f64_zero [simp]: "round_f64 0 = Finite 0"
  by (simp add: round_f64_def)

lemma is_f64_fl: "is_f64 x \<Longrightarrow> fl x = x"
  by (simp add: is_f64_def)

lemma is_f64_bound:
  assumes "is_f64 x"
  shows "\<bar>x\<bar> < pow2 1024"
proof (cases "x = 0")
  case True
  then show ?thesis by simp
next
  case False
  then have pos: "0 < \<bar>x\<bar>" by simp
  from assms False have "ilog2 \<bar>x\<bar> + 1 \<le> 1024" by (simp add: is_f64_def)
  from pow2_mono [OF this] ilog2_bounds [OF pos] show ?thesis by linarith
qed

lemma fl_le_f64: "is_f64 y \<Longrightarrow> x \<le> y \<Longrightarrow> fl x \<le> y"
  using fl_mono [of x y] by (simp add: is_f64_fl)


lemma float_of_int_cases:
  assumes "1 \<le> n"
  shows "float_of_int n = Inl OverflowError \<or> (\<exists>x. float_of_int n = Inr x \<and> 1 \<le> x)"
proof -
  from assms have "(1::rat) \<le> of_int n" by simp
  from fl_mono [OF this] have "1 \<le> fl (of_int n)" by simp
  then show ?thesis by (auto simp: float_of_int_def round_f64_def Let_def)
qed

lemma float_of_int_small:
  assumes "0 \<le> n" and "n \<le> sys_maxsize"
  shows "\<exists>x. float_of_int n = Inr x \<and> 0 \<le> x \<and> x \<le> pow2 63"
proof -
  from assms(1) have nn: "(0::rat) \<le> of_int n" by simp
  have p63: "pow2 63 = of_int (2 ^ 63)" using pow2_nat [of 63] by simp
  from assms(2) have "n \<le> 2 ^ 63" by (simp add: sys_maxsize_def)
  then have "(of_int n :: rat) \<le> of_int (2 ^ 63)" by (simp only: of_int_le_iff)
  then have "of_int n \<le> pow2 63" by (simp only: p63)
  from fl_mono [OF this] have le: "fl (of_int n) \<le> pow2 63" by (simp add: fl_pow2)
  also have "pow2 63 < pow2 1024" by (rule pow2_strict_mono) simp
  finally have "round_f64 (of_int n) = Finite (fl (of_int n))"
    by (rule round_f64_finite [OF nn])
  with le fl_nonneg [OF nn] show ?thesis by (simp add: float_of_int_def)
qed

subsection \<open>The resolver\<close>

lemma py_index_in_range:
  "0 \<le> i \<Longrightarrow> i < int (length xs) \<Longrightarrow> py_index xs i = Inr (xs ! nat i)"
  by (simp add: py_index_def)

lemma int_clamp_nonneg: "0 \<le> f \<Longrightarrow> 1 \<le> n \<Longrightarrow> min f (n - 1) = max 0 (min f (n - 1))"
  for f n :: int
  by (simp add: min_def max_def)

lemma int_clamp_nonpos: "f \<le> 0 \<Longrightarrow> 1 \<le> n \<Longrightarrow> min 0 (n - 1) = max 0 (min f (n - 1))"
  for f n :: int
  by (simp add: min_def max_def)

lemma clamp_floor_nonneg:
  fixes x :: rat and n :: int
  assumes "0 \<le> x" "1 \<le> n"
  shows "min (py_int x) (n - 1) = max 0 (min \<lfloor>x\<rfloor> (n - 1))"
proof -
  from assms(1) have "0 \<le> \<lfloor>x\<rfloor>" by simp
  from int_clamp_nonneg [OF this assms(2)] assms(1) show ?thesis by (simp only: py_int_def if_True)
qed

lemma clamp_floor_nonpos:
  fixes x :: rat and n :: int
  assumes "x \<le> 0" "1 \<le> n"
  shows "min (py_int 0) (n - 1) = max 0 (min \<lfloor>x\<rfloor> (n - 1))"
proof -
  from assms(1) have "\<lfloor>x\<rfloor> \<le> 0" by (simp add: floor_le_zero)
  from int_clamp_nonpos [OF this assms(2)] show ?thesis by (simp add: py_int_def)
qed









text \<open>The float product \<open>progress_ratio * len\<close> of a chunk with a positive duration.\<close>

lemma product_nonneg:
  assumes "0 \<le> x" and "0 < d" and "1 \<le> n"
  shows "f64_mul (f64_quot (round_f64 x) d) n = PosInf
         \<or> (\<exists>y. f64_mul (f64_quot (round_f64 x) d) n = Finite y \<and> 0 \<le> y)"
proof -
  from round_f64_nonneg [OF assms(1)] show ?thesis
  proof
    assume "round_f64 x = PosInf"
    with assms show ?thesis by (simp add: f64_quot_def f64_mul_def)
  next
    assume "\<exists>a. round_f64 x = Finite a \<and> 0 \<le> a"
    then obtain a where a: "round_f64 x = Finite a" "0 \<le> a" by blast
    with assms(2) have "0 \<le> a / d" by simp
    from round_f64_nonneg [OF this] show ?thesis
    proof
      assume "round_f64 (a / d) = PosInf"
      with a assms show ?thesis by (simp add: f64_quot_def f64_mul_def)
    next
      assume "\<exists>r. round_f64 (a / d) = Finite r \<and> 0 \<le> r"
      then obtain r where r: "round_f64 (a / d) = Finite r" "0 \<le> r" by blast
      with assms(3) have "0 \<le> r * n" by simp
      from round_f64_nonneg [OF this] a r assms(2) show ?thesis
        by (simp add: f64_quot_def f64_mul_def)
    qed
  qed
qed

lemma product_nonpos:
  assumes "0 \<le> x" and "d < 0" and "1 \<le> n"
  shows "f64_mul (f64_quot (round_f64 x) d) n = NegInf
         \<or> (\<exists>y. f64_mul (f64_quot (round_f64 x) d) n = Finite y \<and> y \<le> 0)"
proof -
  from round_f64_nonneg [OF assms(1)] show ?thesis
  proof
    assume "round_f64 x = PosInf"
    with assms show ?thesis by (simp add: f64_quot_def f64_mul_def)
  next
    assume "\<exists>a. round_f64 x = Finite a \<and> 0 \<le> a"
    then obtain a where a: "round_f64 x = Finite a" "0 \<le> a" by blast
    with assms(2) have "a / d \<le> 0" by (simp add: divide_le_0_iff)
    from round_f64_nonpos [OF this] show ?thesis
    proof
      assume "round_f64 (a / d) = NegInf"
      with a assms show ?thesis by (simp add: f64_quot_def f64_mul_def)
    next
      assume "\<exists>r. round_f64 (a / d) = Finite r \<and> r \<le> 0"
      then obtain r where r: "round_f64 (a / d) = Finite r" "r \<le> 0" by blast
      with assms(3) have "r * n \<le> 0" by (simp add: mult_le_0_iff)
      from round_f64_nonpos [OF this] a r assms(2) show ?thesis
        by (simp add: f64_quot_def f64_mul_def)
    qed
  qed
qed

lemma sentences_count: "sentences c \<noteq> [] \<Longrightarrow> 1 \<le> int (length (sentences c))"
  by (cases "sentences c") simp_all

lemma sentence_index_of_spec:
  assumes ne: "sentences c \<noteq> []" and st: "start_time c \<le> t"
    and sp: "spec_sentence_index c t = Some i"
  shows "sentence_index c t = Inr i"
proof -
  define n where "n = int (length (sentences c))"
  define d where "d = duration_seconds c"
  define x where "x = t - start_time c"
  from ne have n1: "1 \<le> n" unfolding n_def by (rule sentences_count)
  from st have x0: "0 \<le> x" by (simp add: x_def)
  from sp obtain n' where n': "float_of_int n = Inr n'"
    by (cases "float_of_int n") (simp_all add: spec_sentence_index_def Let_def n_def)
  with float_of_int_cases [OF n1] have n'1: "1 \<le> n'" by auto
  have spec: "(case f64_mul (if d = 0 then Finite 0 else f64_quot (round_f64 x) d) n' of
                 Finite y \<Rightarrow> Some (max 0 (min \<lfloor>y\<rfloor> (n - 1))) | _ \<Rightarrow> None) = Some i"
    using sp n' unfolding n_def d_def x_def by (simp add: spec_sentence_index_def Let_def)
  have code: "sentence_index c t =
      (case (if 0 < d then int_of_f64 (f64_mul (f64_quot (round_f64 x) d) n') else Inr 0) of
         Inl e \<Rightarrow> Inl e | Inr j \<Rightarrow> Inr (min j (n - 1)))"
    using n' unfolding n_def d_def x_def
    by (simp add: sentence_index_def Let_def f64_truediv_def)
  consider (pos) "0 < d" | (zero) "d = 0" | (neg) "d < 0" by linarith
  then show ?thesis
  proof cases
    case pos
    from product_nonneg [OF x0 pos n'1] spec pos
    obtain y where y: "f64_mul (f64_quot (round_f64 x) d) n' = Finite y" "0 \<le> y"
      by auto
    with spec pos have "i = max 0 (min \<lfloor>y\<rfloor> (n - 1))" by simp
    with clamp_floor_nonneg [OF y(2) n1] y(1) pos show ?thesis
      by (simp add: code int_of_f64_def)
  next
    case zero
    with spec have "i = max 0 (min 0 (n - 1))" by (simp add: f64_mul_def)
    with n1 zero show ?thesis by (simp add: code)
  next
    case neg
    from product_nonpos [OF x0 neg n'1] spec neg
    obtain y where y: "f64_mul (f64_quot (round_f64 x) d) n' = Finite y" "y \<le> 0"
      by auto
    with spec neg have "i = max 0 (min \<lfloor>y\<rfloor> (n - 1))" by simp
    moreover from y(2) have "\<lfloor>y\<rfloor> \<le> 0" by (simp add: floor_le_zero)
    ultimately have "i = 0" using n1 by simp
    with n1 neg show ?thesis by (simp add: code)
  qed
qed


lemma sentence_index_bounds:
  assumes ne: "sentences c \<noteq> []" and st: "start_time c \<le> t"
    and si: "sentence_index c t = Inr i"
  shows "0 \<le> i \<and> i < int (length (sentences c))"
proof -
  define n where "n = int (length (sentences c))"
  define x where "x = t - start_time c"
  from ne have n1: "1 \<le> n" unfolding n_def by (rule sentences_count)
  from st have x0: "0 \<le> x" by (simp add: x_def)
  show ?thesis
  proof (cases "0 < duration_seconds c")
    case False
    with si have "i = min 0 (n - 1)" by (auto simp: sentence_index_def Let_def n_def)
    with n1 have "0 \<le> i \<and> i < n" by (simp add: min_def)
    then show ?thesis by (simp only: n_def)
  next
    case pos: True
    from si pos obtain n' where n': "float_of_int n = Inr n'"
      by (cases "float_of_int n") (simp_all add: sentence_index_def Let_def f64_truediv_def n_def)
    with float_of_int_cases [OF n1] have n'1: "1 \<le> n'" by auto
    from si pos n' obtain j where
      j: "int_of_f64 (f64_mul (f64_quot (round_f64 x) (duration_seconds c)) n') = Inr j"
         "i = min j (n - 1)"
      by (cases "int_of_f64 (f64_mul (f64_quot (round_f64 x) (duration_seconds c)) n')")
         (auto simp: sentence_index_def Let_def f64_truediv_def n_def x_def)
    from product_nonneg [OF x0 pos n'1] j(1) obtain y where
      "f64_mul (f64_quot (round_f64 x) (duration_seconds c)) n' = Finite y" "0 \<le> y"
      by (auto simp: int_of_f64_def)
    with j(1) have "0 \<le> j" by (auto simp: int_of_f64_def py_int_def)
    with j(2) n1 have "0 \<le> i \<and> i < n" by (simp add: min_def)
    then show ?thesis by (simp only: n_def)
  qed
qed

lemma fl_two [simp]: "fl 2 = 2"
  using fl_pow2 [of 1] by (simp add: pow2_def)

lemma product_finite:
  assumes x0: "0 \<le> x" and xb: "fl x < pow2 1024" and d: "0 < d" and xd: "fl x \<le> 2 * d"
    and n0: "0 \<le> n" and nb: "n \<le> pow2 63"
  shows "\<exists>y. f64_mul (f64_quot (round_f64 x) d) n = Finite y"
proof -
  have big: "pow2 k < pow2 1024" if "k < 1024" for k
    using that by (rule pow2_strict_mono)
  from round_f64_finite [OF x0 xb] have a: "round_f64 x = Finite (fl x)" .
  from fl_nonneg [OF x0] d have q0: "0 \<le> fl x / d" by simp
  from xd d have "fl x / d \<le> 2" by (simp add: pos_divide_le_eq)
  from fl_mono [OF this] have q2: "fl (fl x / d) \<le> 2" by simp
  also have "(2::rat) < pow2 1024" using big [of 1] by (simp add: pow2_def)
  finally have r: "round_f64 (fl x / d) = Finite (fl (fl x / d))"
    by (rule round_f64_finite [OF q0])
  from fl_nonneg [OF q0] n0 have p0: "0 \<le> fl (fl x / d) * n" by simp
  from q2 n0 have "fl (fl x / d) * n \<le> 2 * n" by (rule mult_right_mono)
  also from nb have "\<dots> \<le> 2 * pow2 63" by simp
  also have "\<dots> = pow2 64" using pow2_add [of 1 63] by (simp add: pow2_def)
  finally have "fl (fl (fl x / d) * n) \<le> fl (pow2 64)" by (rule fl_mono)
  also have "\<dots> = pow2 64" by (simp add: fl_pow2)
  also have "\<dots> < pow2 1024" by (rule big) simp
  finally have "round_f64 (fl (fl x / d) * n) = Finite (fl (fl (fl x / d) * n))"
    by (rule round_f64_finite [OF p0])
  with a r d show ?thesis by (simp add: f64_quot_def f64_mul_def)
qed


text \<open>With \<open>end_time = start_time + duration_seconds\<close> as exact numbers and a start that is
  not negative, as in the manifests of the Chunker, likewise.\<close>

lemma spec_index_defined_exact:
  assumes ft: "is_f64 t"
    and e: "end_time c = start_time c + duration_seconds c" and s0: "0 \<le> start_time c"
    and cov: "covers c t"
    and n: "int (length (sentences c)) \<le> sys_maxsize"
  shows "\<exists>i. spec_sentence_index c t = Some i"
proof -
  define x where "x = t - start_time c"
  from float_of_int_small [OF _ n] obtain n' where
    n': "float_of_int (int (length (sentences c))) = Inr n'" "0 \<le> n'" "n' \<le> pow2 63"
    by auto
  from cov have x0: "0 \<le> x" by (simp add: covers_def x_def)
  from cov e have xd: "x < duration_seconds c" by (simp add: covers_def x_def)
  with x0 have d: "0 < duration_seconds c" by simp
  from s0 have "x \<le> t" by (simp add: x_def)
  from fl_le_f64 [OF ft this] is_f64_bound [OF ft] have xb: "fl x < pow2 1024" by simp
  from xd have "fl x \<le> fl (duration_seconds c)" by (intro fl_mono) simp
  also from fl_upper [OF d] have "\<dots> \<le> 2 * duration_seconds c" .
  finally have "fl x \<le> 2 * duration_seconds c" .
  from product_finite [OF x0 xb d this n'(2,3)] obtain y where
    "f64_mul (f64_quot (round_f64 x) (duration_seconds c)) n' = Finite y" by blast
  with n'(1) d show ?thesis
    by (simp add: spec_sentence_index_def Let_def x_def)
qed




lemma manifest_file_resolves [simp]:
  "get_citation_at_timestamp (Some (CitationJson m)) (Finite t) =
     find_citation (metadata m) (chunks m) t"
  by (simp add: get_citation_at_timestamp_def)

lemma manifest_file_not_finite [simp]:
  "get_citation_at_timestamp (Some (CitationJson m)) PosInf = Inr None"
  "get_citation_at_timestamp (Some (CitationJson m)) NegInf = Inr None"
  "get_citation_at_timestamp (Some (CitationJson m)) NaN = Inr None"
  by (simp_all add: get_citation_at_timestamp_def)











lemma chunk_letters_sum:
  "end_time chunk_letters = fl (start_time chunk_letters + duration_seconds chunk_letters)"
  by code_simp


lemma chunk_letters_exact:
  "2 \<le> (1 - start_time chunk_letters) / duration_seconds chunk_letters * 5"
  by code_simp







subsection \<open>The Chunker's manifests are well formed\<close>

lemma chained_on_time_axis: "chained t0 cs t1 \<Longrightarrow> on_time_axis cs"
proof (induction cs arbitrary: t0)
  case Nil
  then show ?case by simp
next
  case (Cons c cs)
  note rest = chained_tail [OF Cons.prems]
  note hd = chained_head_le [OF Cons.prems]
  from Cons.prems have ce: "start_time c \<le> end_time c" using hd by simp
  show ?case
  proof (cases cs)
    case Nil
    with ce show ?thesis by simp
  next
    case (Cons d ds)
    with rest have "start_time d = end_time c" using chained_start [OF rest] by simp
    with ce Cons.IH [OF rest] Cons show ?thesis by simp
  qed
qed

lemma chunker_manifest_on_time_axis:
  "on_time_axis (chunks (build_citation_data mx stem_title data))"
proof -
  have "chained 0 (tts_chunks (chunk_loop mx data)) (estimated_total_time (chunk_loop mx data))"
    using chunk_loop_emitted [of mx data] by (simp add: emitted_ok_def)
  then show ?thesis by (simp add: chained_on_time_axis)
qed

lemma chunker_manifest_sentences:
  "c \<in> set (chunks (build_citation_data mx stem_title data)) \<Longrightarrow> sentences c \<noteq> []"
  using chunk_loop_chunk_ok [of c mx data] by (simp add: chunk_ok_def)

lemma chunker_chunk_times:
  assumes "c \<in> set (chunks (build_citation_data mx stem_title data))"
  shows "end_time c = start_time c + duration_seconds c \<and> 0 \<le> start_time c"
proof -
  have ch: "chained 0 (tts_chunks (chunk_loop mx data)) (estimated_total_time (chunk_loop mx data))"
    using chunk_loop_emitted [of mx data] by (simp add: emitted_ok_def)
  from assms have c: "c \<in> set (tts_chunks (chunk_loop mx data))" by simp
  from chained_each [OF ch c] chained_bounds [OF ch c] show ?thesis by simp
qed

lemma sentence_index_total:
  assumes ft: "is_f64 t"
    and e: "end_time c = start_time c + duration_seconds c" and s0: "0 \<le> start_time c"
    and cov: "covers c t" and ne: "sentences c \<noteq> []"
    and n: "int (length (sentences c)) \<le> sys_maxsize"
  shows "\<exists>i. sentence_index c t = Inr i"
proof -
  from spec_index_defined_exact [OF ft e s0 cov n] obtain i where
    "spec_sentence_index c t = Some i" by blast
  moreover from cov have "start_time c \<le> t" by (simp add: covers_def)
  ultimately have "sentence_index c t = Inr i" by (intro sentence_index_of_spec [OF ne])
  then show ?thesis by blast
qed

lemma find_citation_total:
  assumes "is_f64 t"
    and "\<forall>c\<in>set cs. sentences c \<noteq> [] \<and> int (length (sentences c)) \<le> sys_maxsize
           \<and> end_time c = start_time c + duration_seconds c \<and> 0 \<le> start_time c"
  shows "\<exists>r. find_citation md cs t = Inr r"
  using assms(2)
proof (induction cs)
  case Nil
  then show ?case by simp
next
  case (Cons c cs)
  show ?case
  proof (cases "covers c t")
    case True
    from Cons.prems have ne: "sentences c \<noteq> []"
      and n: "int (length (sentences c)) \<le> sys_maxsize"
      and e: "end_time c = start_time c + duration_seconds c" and s0: "0 \<le> start_time c"
      by simp_all
    from True have st: "start_time c \<le> t" by (simp add: covers_def)
    from sentence_index_total [OF assms(1) e s0 True ne n] obtain i where
      i: "sentence_index c t = Inr i" by blast
    from sentence_index_bounds [OF ne st i]
    have "py_index (sentences c) i = Inr (sentences c ! nat i)"
      by (intro py_index_in_range) simp_all
    with True i show ?thesis by (simp add: covers_def)
  next
    case False
    with Cons show ?thesis by (auto simp: covers_def)
  qed
qed

text \<open>
  Claim C9. Every chunk of a manifest the Chunker builds has at least one sentence. For
  every timestamp in a chunk's interval, an index the resolver computes lies in
  \<open>0..len-1\<close> of that chunk's sentence list, so the subscription succeeds; and the
  resolver does compute an index, no operation raising, when the timestamp is a float and
  the sentence list has a size that Python can hold (\<open>sys.maxsize\<close> items at most). On
  such a manifest the resolver never raises, whatever the timestamp. The times of the
  manifest are those of the Chunker's model; the resolver's arithmetic on them is float
  arithmetic.
\<close>

theorem chunker_chunks_resolve_in_bounds:
  "let m = build_citation_data max_chars stem_title data
   in (\<forall>c\<in>set (chunks m). sentences c \<noteq> [])
      \<and> (\<forall>c\<in>set (chunks m). start_time c \<le> t \<and> t < end_time c \<longrightarrow>
           (\<forall>i. sentence_index c t = Inr i \<longrightarrow>
              0 \<le> i \<and> i < int (length (sentences c))
              \<and> py_index (sentences c) i = Inr (sentences c ! nat i))
           \<and> (is_f64 t \<and> int (length (sentences c)) \<le> sys_maxsize \<longrightarrow>
                (\<exists>i. sentence_index c t = Inr i)))
      \<and> (is_f64 t \<and> (\<forall>c\<in>set (chunks m). int (length (sentences c)) \<le> sys_maxsize) \<longrightarrow>
           (\<exists>r. get_citation_at_timestamp (Some (CitationJson m)) (Finite t) = Inr r))
      \<and> get_citation_at_timestamp (Some (CitationJson m)) PosInf = Inr None
      \<and> get_citation_at_timestamp (Some (CitationJson m)) NegInf = Inr None
      \<and> get_citation_at_timestamp (Some (CitationJson m)) NaN = Inr None"
proof -
  let ?m = "build_citation_data max_chars stem_title data"
  have ne: "\<forall>c\<in>set (chunks ?m). sentences c \<noteq> []"
    using chunker_manifest_sentences [of _ max_chars stem_title data] by blast
  have inb: "(\<forall>i. sentence_index c t = Inr i \<longrightarrow>
              0 \<le> i \<and> i < int (length (sentences c))
              \<and> py_index (sentences c) i = Inr (sentences c ! nat i))
           \<and> (is_f64 t \<and> int (length (sentences c)) \<le> sys_maxsize \<longrightarrow>
                (\<exists>i. sentence_index c t = Inr i))"
    if c: "c \<in> set (chunks ?m)" and cov: "start_time c \<le> t \<and> t < end_time c" for c
  proof -
    from ne c have n: "sentences c \<noteq> []" by blast
    from cov have st: "start_time c \<le> t" and cv: "covers c t" by (simp_all add: covers_def)
    have a: "0 \<le> i \<and> i < int (length (sentences c))
              \<and> py_index (sentences c) i = Inr (sentences c ! nat i)"
      if "sentence_index c t = Inr i" for i
      using sentence_index_bounds [OF n st that] py_index_in_range [of i "sentences c"] by simp
    from chunker_chunk_times [OF c]
    have b: "\<exists>i. sentence_index c t = Inr i"
      if "is_f64 t \<and> int (length (sentences c)) \<le> sys_maxsize"
      using sentence_index_total [OF _ _ _ cv n] that by blast
    from a b show ?thesis by blast
  qed
  have tot: "\<exists>r. get_citation_at_timestamp (Some (CitationJson ?m)) (Finite t) = Inr r"
    if "is_f64 t \<and> (\<forall>c\<in>set (chunks ?m). int (length (sentences c)) \<le> sys_maxsize)"
  proof -
    from that ne chunker_chunk_times [of _ max_chars stem_title data]
    have "\<forall>c\<in>set (chunks ?m). sentences c \<noteq> [] \<and> int (length (sentences c)) \<le> sys_maxsize
           \<and> end_time c = start_time c + duration_seconds c \<and> 0 \<le> start_time c"
      by blast
    from find_citation_total [OF _ this, of t "metadata ?m"] that show ?thesis by simp
  qed
  from ne inb tot show ?thesis unfolding Let_def by (simp only: manifest_file_not_finite) blast
qed

lemma example_last_chunk:
  "tts_chunks (chunk_loop 15 example_data) ! 3 =
      \<lparr>chunk_id = 3, chunk_text = ''A. B.'', page = 1, block_index = 2,
       sentences = [\<lparr>global_index = 3, sentence_in_block = 0, sentence_text = ''A.''\<rparr>,
                    \<lparr>global_index = 4, sentence_in_block = 1, sentence_text = ''B.''\<rparr>],
       start_time = 22 / 7, duration_seconds = 5 / 14, end_time = 7 / 2\<rparr>"
  by (simp add: example_chunks)

theorem chunker_chunks_resolve_in_bounds_witness:
  "let m = build_citation_data 15 ''book'' example_data
   in sentences (chunks m ! 3) \<noteq> []
      \<and> start_time (chunks m ! 3) \<le> 27 / 8 \<and> 27 / 8 < end_time (chunks m ! 3)
      \<and> is_f64 (27 / 8) \<and> int (length (sentences (chunks m ! 3))) \<le> sys_maxsize
      \<and> sentence_index (chunks m ! 3) (27 / 8) = Inr 1
      \<and> py_index (sentences (chunks m ! 3)) 1 =
           Inr \<lparr>global_index = 4, sentence_in_block = 1, sentence_text = ''B.''\<rparr>"
proof -
  let ?m = "build_citation_data 15 ''book'' example_data"
  let ?c = "chunks ?m ! 3"
  note T = chunker_chunks_resolve_in_bounds [of 15 "''book''" example_data "27 / 8", unfolded Let_def]
  have mem: "?c \<in> set (chunks ?m)" by (simp add: example_chunks)
  have cov: "start_time ?c \<le> 27 / 8 \<and> 27 / 8 < end_time ?c"
    by (simp add: example_last_chunk)
  have fl: "is_f64 (27 / 8)" by code_simp
  have sz: "int (length (sentences ?c)) \<le> sys_maxsize"
    by (simp add: example_last_chunk sys_maxsize_def)
  have "sentence_index \<lparr>chunk_id = 3, chunk_text = ''A. B.'', page = 1, block_index = 2,
       sentences = [\<lparr>global_index = 3, sentence_in_block = 0, sentence_text = ''A.''\<rparr>,
                    \<lparr>global_index = 4, sentence_in_block = 1, sentence_text = ''B.''\<rparr>],
       start_time = 22 / 7, duration_seconds = 5 / 14, end_time = 7 / 2\<rparr> (27 / 8) = Inr 1"
    by code_simp
  then have idx: "sentence_index ?c (27 / 8) = Inr 1"
    by (simp only: example_last_chunk build_chunks)
  from T mem have ne: "sentences ?c \<noteq> []" by blast
  from T mem cov idx have P: "py_index (sentences ?c) 1 = Inr (sentences ?c ! nat 1)" by blast
  have nth: "sentences ?c ! nat 1 = \<lparr>global_index = 4, sentence_in_block = 1, sentence_text = ''B.''\<rparr>"
    by (simp add: example_last_chunk)
  have py: "py_index (sentences ?c) 1 =
           Inr \<lparr>global_index = 4, sentence_in_block = 1, sentence_text = ''B.''\<rparr>"
    using P nth by simp
  from ne cov fl sz idx py show ?thesis unfolding Let_def by blast
qed


subsection \<open>One chunk of Segment Generation\<close>

lemma write_ledger_fields [simp]:
  "tts_requests (write_ledger b m w) = tts_requests w"
  "extractor_calls (write_ledger b m w) = extractor_calls w"
  "pdf_cache (write_ledger b m w) = pdf_cache w"
  "pdf_input (write_ledger b m w) = pdf_input w"
  "manifest_json (audiobooks (write_ledger b m w) b) = Some (LedgerJson m)"
  "audio (audiobooks (write_ledger b m w) b') = audio (audiobooks w b')"
  by (simp_all add: write_ledger_def)

lemma write_audio_fields [simp]:
  "tts_requests (write_audio b n x w) = tts_requests w"
  "extractor_calls (write_audio b n x w) = extractor_calls w"
  "pdf_cache (write_audio b n x w) = pdf_cache w"
  "pdf_input (write_audio b n x w) = pdf_input w"
  "manifest_json (audiobooks (write_audio b n x w) b') = manifest_json (audiobooks w b')"
  "audio (audiobooks (write_audio b n x w) b) = (audio (audiobooks w b))(n \<mapsto> x)"
  by (simp_all add: write_audio_def)

lemma ledger_ready_write [simp]:
  "ledger_ready (write_ledger b m w) b = ready_chunks m"
  "ledger_ready (write_audio b n x w) b' = ledger_ready w b'"
  "ledger_ready (w\<lparr>tts_requests := rs\<rparr>) b' = ledger_ready w b'"
  by (simp_all add: ledger_ready_def)

lemma add_ready_set [simp]:
  "set (ready_chunks (add_ready m c)) = insert (ready_entry c) (set (ready_chunks m))"
  by (simp add: add_ready_def)

lemma add_ready_sorted [simp]: "sorted (map rc_chunk_id (ready_chunks (add_ready m c)))"
  by (simp add: add_ready_def)

lemma listed_iff: "listed m c \<longleftrightarrow> chunk_id c \<in> rc_chunk_id ` set (ready_chunks m)"
  unfolding listed_def list_ex_iff by (metis (mono_tags) imageE image_eqI)

lemma ready_entry_id [simp]: "rc_chunk_id (ready_entry c) = chunk_id c"
  by (simp add: ready_entry_def)

text \<open>The three ways a chunk is processed.\<close>

lemma process_chunk_heal:
  "on_disk w b c \<Longrightarrow> \<not> listed m c \<Longrightarrow>
   process_chunk e b (m, w) c = (add_ready m c, write_ledger b (add_ready m c) w)"
  by (simp add: process_chunk_def)

lemma process_chunk_skip:
  "listed m c \<Longrightarrow> process_chunk e b (m, w) c = (m, w)"
  by (simp add: process_chunk_def)

lemma process_chunk_success:
  "\<not> on_disk w b c \<Longrightarrow> \<not> listed m c \<Longrightarrow>
   synthesize e (length (tts_requests w)) (chunk_text c) = TtsAudio x \<Longrightarrow>
   process_chunk e b (m, w) c =
     (add_ready m c,
      write_ledger b (add_ready m c)
        (write_audio b (audio_filename c) x (w\<lparr>tts_requests := tts_requests w @ [c]\<rparr>)))"
  by (simp add: process_chunk_def Let_def)

lemma process_chunk_failure:
  "\<not> on_disk w b c \<Longrightarrow> \<not> listed m c \<Longrightarrow>
   (\<forall>x. synthesize e (length (tts_requests w)) (chunk_text c) \<noteq> TtsAudio x) \<Longrightarrow>
   process_chunk e b (m, w) c = (m, w\<lparr>tts_requests := tts_requests w @ [c]\<rparr>)"
  by (simp add: process_chunk_def Let_def split: tts_response.splits)

lemma process_chunk_cases:
  obtains (heal) "on_disk w b c" "\<not> listed m c"
      "process_chunk e b (m, w) c = (add_ready m c, write_ledger b (add_ready m c) w)"
  | (skip) "listed m c" "process_chunk e b (m, w) c = (m, w)"
  | (success) x where "\<not> on_disk w b c" "\<not> listed m c"
      "process_chunk e b (m, w) c =
         (add_ready m c,
          write_ledger b (add_ready m c)
            (write_audio b (audio_filename c) x (w\<lparr>tts_requests := tts_requests w @ [c]\<rparr>)))"
  | (failure) "\<not> on_disk w b c" "\<not> listed m c"
      "process_chunk e b (m, w) c = (m, w\<lparr>tts_requests := tts_requests w @ [c]\<rparr>)"
proof (cases "listed m c")
  case True
  then show ?thesis using skip process_chunk_skip by blast
next
  case nl: False
  show ?thesis
  proof (cases "on_disk w b c")
    case True
    with nl show ?thesis using heal process_chunk_heal by blast
  next
    case nd: False
    show ?thesis
    proof (cases "\<exists>x. synthesize e (length (tts_requests w)) (chunk_text c) = TtsAudio x")
      case True
      then obtain x where "synthesize e (length (tts_requests w)) (chunk_text c) = TtsAudio x" ..
      with nl nd show ?thesis using success process_chunk_success by blast
    next
      case False
      with nl nd show ?thesis using failure process_chunk_failure by blast
    qed
  qed
qed

text \<open>What one chunk never undoes: files, ledger entries and requests only grow.\<close>

lemma process_chunk_grows:
  assumes "process_chunk e b (m, w) c = (m', w')"
  shows "set (ready_chunks m) \<subseteq> set (ready_chunks m')"
    and "audio (audiobooks w b) \<subseteq>\<^sub>m audio (audiobooks w' b)"
    and "\<exists>rs. tts_requests w' = tts_requests w @ rs \<and> set rs \<subseteq> {c}
           \<and> (rs \<noteq> [] \<longrightarrow> \<not> on_disk w b c \<and> \<not> listed m c)"
    and "set (ready_chunks m') \<subseteq> insert (ready_entry c) (set (ready_chunks m))"
    and "in_sync b (m, w) \<or> m' \<noteq> m \<Longrightarrow> in_sync b (m', w')"
    and "sorted (map rc_chunk_id (ready_chunks m)) \<Longrightarrow> sorted (map rc_chunk_id (ready_chunks m'))"
    and "pdf_cache w' = pdf_cache w \<and> extractor_calls w' = extractor_calls w \<and> pdf_input w' = pdf_input w"
    and "ready_chunks m = ledger_ready w b \<Longrightarrow> ready_chunks m' = ledger_ready w' b"
  using assms
  by (cases rule: process_chunk_cases [of w b c m e];
      auto simp: in_sync_def on_disk_def map_le_def)+


subsection \<open>The loop of Segment Generation\<close>

lemma listed_mono: "set (ready_chunks m) \<subseteq> set (ready_chunks m') \<Longrightarrow> listed m c \<Longrightarrow> listed m' c"
  by (auto simp: listed_iff)

lemma on_disk_mono:
  "audio (audiobooks w b) \<subseteq>\<^sub>m audio (audiobooks w' b) \<Longrightarrow> on_disk w b c \<Longrightarrow> on_disk w' b c"
  by (auto simp: on_disk_def map_le_def dom_def)

lemma loop_grows:
  assumes "foldl (process_chunk e b) (m, w) cs = (m', w')"
  shows "set (ready_chunks m) \<subseteq> set (ready_chunks m')
    \<and> audio (audiobooks w b) \<subseteq>\<^sub>m audio (audiobooks w' b)
    \<and> (\<exists>rs. tts_requests w' = tts_requests w @ rs \<and> set rs \<subseteq> set cs
           \<and> (\<forall>r\<in>set rs. \<not> on_disk w b r \<and> \<not> listed m r))
    \<and> (in_sync b (m, w) \<longrightarrow> in_sync b (m', w'))
    \<and> (sorted (map rc_chunk_id (ready_chunks m)) \<longrightarrow> sorted (map rc_chunk_id (ready_chunks m')))
    \<and> pdf_cache w' = pdf_cache w \<and> extractor_calls w' = extractor_calls w
    \<and> pdf_input w' = pdf_input w
    \<and> (ready_chunks m = ledger_ready w b \<longrightarrow> ready_chunks m' = ledger_ready w' b)"
  using assms
proof (induction cs arbitrary: m w)
  case Nil
  then show ?case by simp
next
  case (Cons d ds)
  obtain m1 w1 where step: "process_chunk e b (m, w) d = (m1, w1)"
    by (cases "process_chunk e b (m, w) d")
  with Cons.prems have rest: "foldl (process_chunk e b) (m1, w1) ds = (m', w')" by simp
  note G = process_chunk_grows [OF step]
  note IH = Cons.IH [OF rest]
  from G(3) obtain rs1 where rs1: "tts_requests w1 = tts_requests w @ rs1" "set rs1 \<subseteq> {d}"
    "rs1 \<noteq> [] \<longrightarrow> \<not> on_disk w b d \<and> \<not> listed m d" by blast
  from IH obtain rs2 where rs2: "tts_requests w' = tts_requests w1 @ rs2" "set rs2 \<subseteq> set ds"
    "\<forall>r\<in>set rs2. \<not> on_disk w1 b r \<and> \<not> listed m1 r" by blast
  have req: "\<exists>rs. tts_requests w' = tts_requests w @ rs \<and> set rs \<subseteq> set (d # ds)
           \<and> (\<forall>r\<in>set rs. \<not> on_disk w b r \<and> \<not> listed m r)"
  proof (intro exI [of _ "rs1 @ rs2"] conjI ballI)
    show "tts_requests w' = tts_requests w @ rs1 @ rs2" using rs1(1) rs2(1) by simp
    show "set (rs1 @ rs2) \<subseteq> set (d # ds)" using rs1(2) rs2(2) by auto
  next
    fix r assume "r \<in> set (rs1 @ rs2)"
    then consider "r \<in> set rs1" | "r \<in> set rs2" by auto
    then show "\<not> on_disk w b r" 
    proof cases
      case 1
      with rs1(2,3) show ?thesis by auto
    next
      case 2
      with rs2(3) on_disk_mono [OF G(2)] show ?thesis by blast
    qed
  next
    fix r assume "r \<in> set (rs1 @ rs2)"
    then consider "r \<in> set rs1" | "r \<in> set rs2" by auto
    then show "\<not> listed m r"
    proof cases
      case 1
      with rs1(2,3) show ?thesis by auto
    next
      case 2
      with rs2(3) listed_mono [OF G(1)] show ?thesis by blast
    qed
  qed
  have sub: "set (ready_chunks m) \<subseteq> set (ready_chunks m')" using G(1) IH by blast
  have aud: "audio (audiobooks w b) \<subseteq>\<^sub>m audio (audiobooks w' b)"
    using G(2) IH map_le_trans by blast
  have sync: "in_sync b (m, w) \<longrightarrow> in_sync b (m', w')" using G(5) IH by blast
  have srt: "sorted (map rc_chunk_id (ready_chunks m)) \<longrightarrow> sorted (map rc_chunk_id (ready_chunks m'))"
    using G(6) IH by blast
  have oth: "pdf_cache w' = pdf_cache w \<and> extractor_calls w' = extractor_calls w
    \<and> pdf_input w' = pdf_input w" using G(7) IH by simp
  have rdy: "ready_chunks m = ledger_ready w b \<longrightarrow> ready_chunks m' = ledger_ready w' b"
    using G(8) IH by blast
  from sub aud req sync srt oth rdy show ?case by blast
qed

lemma loop_heals:
  assumes "foldl (process_chunk e b) (m, w) cs = (m', w')"
    and "c \<in> set cs" and "distinct (map chunk_id cs)"
    and "on_disk w b c" and "\<not> listed m c"
  shows "ready_entry c \<in> set (ready_chunks m') \<and> in_sync b (m', w')
    \<and> sorted (map rc_chunk_id (ready_chunks m'))"
  using assms
proof (induction cs arbitrary: m w)
  case Nil
  then show ?case by simp
next
  case (Cons d ds)
  obtain m1 w1 where step: "process_chunk e b (m, w) d = (m1, w1)"
    by (cases "process_chunk e b (m, w) d")
  with Cons.prems(1) have rest: "foldl (process_chunk e b) (m1, w1) ds = (m', w')" by simp
  note G = process_chunk_grows [OF step]
  show ?case
  proof (cases "d = c")
    case True
    from step True process_chunk_heal [OF Cons.prems(4,5), of e]
    have "(m1, w1) = (add_ready m c, write_ledger b (add_ready m c) w)" by metis
    then have m1: "m1 = add_ready m c" and w1: "w1 = write_ledger b (add_ready m c) w"
      by blast+
    have "ready_entry c \<in> set (ready_chunks m1)" "in_sync b (m1, w1)"
      "sorted (map rc_chunk_id (ready_chunks m1))"
      by (simp_all add: m1 w1 in_sync_def)
    with loop_grows [OF rest] show ?thesis by blast
  next
    case False
    with Cons.prems(2) have c: "c \<in> set ds" by simp
    with Cons.prems(3) have ne: "chunk_id d \<noteq> chunk_id c" by auto
    from Cons.prems(3) have dist: "distinct (map chunk_id ds)" by simp
    have od: "on_disk w1 b c" by (rule on_disk_mono [OF G(2) Cons.prems(4)])
    have nl: "\<not> listed m1 c"
    proof
      assume "listed m1 c"
      then obtain r where r: "r \<in> set (ready_chunks m1)" "rc_chunk_id r = chunk_id c"
        by (auto simp: listed_iff)
      with G(4) have "r = ready_entry d \<or> r \<in> set (ready_chunks m)" by blast
      with r ne Cons.prems(5) show False by (metis imageI listed_iff ready_entry_id)
    qed
    from Cons.IH [OF rest c dist od nl] show ?thesis .
  qed
qed

lemma loop_attempts_all:
  assumes "foldl (process_chunk e b) (m, w) cs = (m', w')" and "c \<in> set cs"
  shows "c \<in> set (new_requests w w') \<or> on_disk w' b c \<or> listed m' c"
  using assms
proof (induction cs arbitrary: m w)
  case Nil
  then show ?case by simp
next
  case (Cons d ds)
  obtain m1 w1 where step: "process_chunk e b (m, w) d = (m1, w1)"
    by (cases "process_chunk e b (m, w) d")
  with Cons.prems(1) have rest: "foldl (process_chunk e b) (m1, w1) ds = (m', w')" by simp
  note G = process_chunk_grows [OF step]
  note L = loop_grows [OF rest]
  from G(3) obtain rs1 where rs1: "tts_requests w1 = tts_requests w @ rs1" by blast
  from L obtain rs2 where rs2: "tts_requests w' = tts_requests w1 @ rs2" by blast
  have nr: "new_requests w w' = rs1 @ rs2" "new_requests w1 w' = rs2"
    by (simp_all add: new_requests_def rs1 rs2)
  show ?case
  proof (cases "d = c")
    case True
    have "c \<in> set rs1 \<or> listed m1 c"
    proof (cases rule: process_chunk_cases [of w b c m e])
      case heal
      with step True show ?thesis by (auto simp: listed_iff)
    next
      case skip
      with step True show ?thesis by auto
    next
      case (success x)
      with step True show ?thesis by (auto simp: listed_iff)
    next
      case failure
      with step True rs1 show ?thesis by auto
    qed
    with L listed_mono [of m1 m' c] nr show ?thesis by auto
  next
    case False
    with Cons.prems(2) have "c \<in> set ds" by simp
    from Cons.IH [OF rest this] nr show ?thesis by auto
  qed
qed

lemma loop_skips_present:
  assumes "foldl (process_chunk e b) (m, w) cs = (m', w')"
    and "on_disk w b c \<or> listed m c"
  shows "c \<notin> set (new_requests w w')"
proof -
  from loop_grows [OF assms(1)] obtain rs where
    rs: "tts_requests w' = tts_requests w @ rs" "\<forall>r\<in>set rs. \<not> on_disk w b r \<and> \<not> listed m r"
    by blast
  then have "new_requests w w' = rs" by (simp add: new_requests_def)
  with rs(2) assms(2) show ?thesis by auto
qed



subsection \<open>Audio file names\<close>

lemma digits_value_snoc: "digits_value (s @ [c]) = 10 * digits_value s + (of_char c - 48)"
  by (simp add: digits_value_def)

lemma of_char_digit: "d < 10 \<Longrightarrow> (of_char (digit_char d) :: nat) = 48 + d"
  by (simp add: digit_char_def)

lemma digits_value_str_nat: "digits_value (str_nat n) = n"
proof (induction n rule: str_nat.induct)
  case (1 n)
  show ?case
  proof (cases "n < 10")
    case True
    then show ?thesis
      by (subst str_nat.simps) (simp add: digits_value_def of_char_digit)
  next
    case False
    with 1 have "digits_value (str_nat (n div 10)) = n div 10" by simp
    with False show ?thesis
      by (subst str_nat.simps) (simp add: digits_value_snoc of_char_digit)
  qed
qed

lemma digits_value_zeros: "digits_value (replicate k (CHR ''0'') @ s) = digits_value s"
proof -
  have "foldl (\<lambda>a c. 10 * a + (of_char c - 48)) 0 (replicate k (CHR ''0'')) = (0::nat)"
    by (induction k) simp_all
  then show ?thesis by (simp add: digits_value_def)
qed

lemma digits_value_format: "digits_value (format_0d w (int n)) = n"
  by (simp add: format_0d_def zero_pad_def digits_value_zeros digits_value_str_nat)

lemma str_nat_digits: "c \<in> set (str_nat n) \<Longrightarrow> c \<noteq> CHR ''_''"
proof (induction n rule: str_nat.induct)
  case (1 n)
  have d: "digit_char k \<noteq> CHR ''_''" if "k < 10" for k
  proof
    assume "digit_char k = CHR ''_''"
    then have "(of_char (digit_char k) :: nat) = of_char (CHR ''_'')" by simp
    with that show False by (simp add: of_char_digit)
  qed
  show ?case
  proof (cases "n < 10")
    case True
    with 1(2) d show ?thesis by (subst (asm) str_nat.simps) auto
  next
    case False
    with 1 d [of "n mod 10"] show ?thesis by (subst (asm) (2) str_nat.simps) auto
  qed
qed

lemma format_no_underscore: "CHR ''_'' \<notin> set (format_0d w (int n))"
  using str_nat_digits [of "CHR ''_''" n] by (auto simp: format_0d_def zero_pad_def)

lemma split_at_first:
  "x \<notin> set a \<Longrightarrow> x \<notin> set a' \<Longrightarrow> a @ x # r = a' @ x # r' \<Longrightarrow> a = a'"
proof (induction a arbitrary: a')
  case Nil
  then show ?case by (cases a') auto
next
  case (Cons y a)
  then show ?case by (cases a') auto
qed


lemma audio_filename_inj:
  assumes "audio_filename c = audio_filename d"
  shows "chunk_id c = chunk_id d"
proof -
  let ?a = "format_0d 4 (int (chunk_id c))" and ?a' = "format_0d 4 (int (chunk_id d))"
  from assms have "?a @ CHR ''_'' # (''p'' @ str_nat (page c) @ ''.wav'') =
      ?a' @ CHR ''_'' # (''p'' @ str_nat (page d) @ ''.wav'')"
    by (simp add: audio_filename_def)
  from split_at_first [OF format_no_underscore format_no_underscore this]
  have "?a = ?a'" .
  then have "digits_value ?a = digits_value ?a'" by simp
  then show ?thesis by (simp only: digits_value_format)
qed

subsection \<open>Segment Generation as a whole\<close>

lemma initial_manifest_ready:
  "ready_chunks (initial_manifest data (manifest_json (audiobooks w b))) = ledger_ready w b"
  by (simp add: initial_manifest_def ledger_ready_def split: option.splits json_file.splits)

lemma listed_initial:
  "listed (initial_manifest data (manifest_json (audiobooks w b))) c \<longleftrightarrow> ledger_lists w b c"
  by (simp add: listed_iff ledger_lists_def initial_manifest_ready)

lemma generate_runs:
  assumes "pdf_cache w name = Some (CitationJson data)"
    and "manifest_json (audiobooks w (book_id data)) \<noteq> Some Unparseable"
  shows "generate_audio_streaming e name limit w =
           (Inr (Some (book_id data)),
            snd (foldl (process_chunk e (book_id data))
                   (initial_manifest data (manifest_json (audiobooks w (book_id data))), w)
                   (chunks_to_process limit (chunks data))))"
  using assms
  by (simp add: generate_audio_streaming_def split: option.splits json_file.splits)

lemma generate_keeps_cache:
  "pdf_cache (snd (generate_audio_streaming e name limit w)) = pdf_cache w
   \<and> extractor_calls (snd (generate_audio_streaming e name limit w)) = extractor_calls w
   \<and> pdf_input (snd (generate_audio_streaming e name limit w)) = pdf_input w"
proof (cases "\<exists>data. pdf_cache w name = Some (CitationJson data)
    \<and> manifest_json (audiobooks w (book_id data)) \<noteq> Some Unparseable")
  case True
  then obtain data where d: "pdf_cache w name = Some (CitationJson data)"
    "manifest_json (audiobooks w (book_id data)) \<noteq> Some Unparseable" by blast
  obtain m' w' where f: "foldl (process_chunk e (book_id data))
                   (initial_manifest data (manifest_json (audiobooks w (book_id data))), w)
                   (chunks_to_process limit (chunks data)) = (m', w')"
    by (cases "foldl (process_chunk e (book_id data))
                   (initial_manifest data (manifest_json (audiobooks w (book_id data))), w)
                   (chunks_to_process limit (chunks data))")
  from loop_grows [OF f] show ?thesis by (simp add: generate_runs [OF d] f)
next
  case False
  then have "snd (generate_audio_streaming e name limit w) = w"
    by (auto simp: generate_audio_streaming_def split: option.splits json_file.splits)
  then show ?thesis by simp
qed

text \<open>
  Claim C6. If the citation manifest of a book is read and the ledger file of the book
  exists but does not parse, Segment Generation returns \<open>None\<close> and leaves the world as it
  found it: no chunk is processed, nothing is posted to the synthesizer, and the ledger
  file and the audio files are untouched.
\<close>

theorem unreadable_ledger_halts:
  assumes "pdf_cache w name = Some (CitationJson data)"
    and "manifest_json (audiobooks w (book_id data)) = Some Unparseable"
  shows "generate_audio_streaming e name limit w = (Inr None, w)"
  using assms by (simp add: generate_audio_streaming_def)

lemma broken_ledger_world_files:
  "pdf_cache broken_ledger_world ''T_citation_ready.json'' = Some (CitationJson example_manifest)"
  "manifest_json (audiobooks broken_ledger_world (book_id example_manifest)) = Some Unparseable"
  by (simp_all add: broken_ledger_world_def fresh_world_def example_manifest_def)

theorem unreadable_ledger_halts_witness:
  "generate_audio_streaming good_services ''T_citation_ready.json'' None broken_ledger_world =
     (Inr None, broken_ledger_world)
   \<and> manifest_json (audiobooks broken_ledger_world ''T'') = Some Unparseable
   \<and> \<not> on_disk broken_ledger_world ''T'' chunk_C"
proof -
  have a: "generate_audio_streaming good_services ''T_citation_ready.json'' None broken_ledger_world =
     (Inr None, broken_ledger_world)"
    by (rule unreadable_ledger_halts [OF broken_ledger_world_files])
  have b: "manifest_json (audiobooks broken_ledger_world ''T'') = Some Unparseable"
    by (simp add: broken_ledger_world_def fresh_world_def)
  have c: "\<not> on_disk broken_ledger_world ''T'' chunk_C"
    by code_simp
  from a b c show ?thesis by blast
qed

lemma example_book [simp]: "book_id example_manifest = ''T''"
  by (simp add: example_manifest_def)

lemma healing_world_files:
  "pdf_cache healing_world ''T_citation_ready.json'' = Some (CitationJson example_manifest)"
  "manifest_json (audiobooks healing_world (book_id example_manifest)) \<noteq> Some Unparseable"
  by (simp_all add: healing_world_def fresh_world_def)

subsection \<open>Segment Generation when writes may fail\<close>

lemma set_ledger_file_fields [simp]:
  "tts_requests (set_ledger_file b l w) = tts_requests w"
  "manifest_json (audiobooks (set_ledger_file b l w) b) = l"
  "audio (audiobooks (set_ledger_file b l w) b') = audio (audiobooks w b')"
  by (simp_all add: set_ledger_file_def)

lemma set_audio_file_fields [simp]:
  "tts_requests (set_audio_file b n l w) = tts_requests w"
  "manifest_json (audiobooks (set_audio_file b n l w) b') = manifest_json (audiobooks w b')"
  "audio (audiobooks (set_audio_file b n l w) b) = (audio (audiobooks w b))(n := l)"
  by (simp_all add: set_audio_file_def)

lemma process_chunk_io_reliable:
  "process_chunk_io reliable_disk e b mw c = (None, process_chunk e b mw c)"
  by (simp add: process_chunk_io_def process_chunk_def reliable_disk_def Let_def
      split: tts_response.splits)

lemma stage3_loop_io_reliable:
  "stage3_loop_io reliable_disk e b mw cs = (None, foldl (process_chunk e b) mw cs)"
  by (induction cs arbitrary: mw) (simp_all add: process_chunk_io_reliable)

lemma generate_audio_streaming_io_reliable:
  "generate_audio_streaming_io reliable_disk e name limit w = generate_audio_streaming e name limit w"
  by (simp add: generate_audio_streaming_io_def generate_audio_streaming_def
      stage3_loop_io_reliable split: option.splits json_file.splits)

lemma process_chunk_io_heal:
  assumes "on_disk w b c" and "\<not> listed m c"
  shows "\<exists>w2. process_chunk_io d e b (m, w) c = (None, add_ready m c, w2)
       \<and> tts_requests w2 = tts_requests w
       \<and> audio (audiobooks w2 b) = audio (audiobooks w b)
       \<and> (heal_write d c = Succeeds \<longrightarrow>
            manifest_json (audiobooks w2 b) = Some (LedgerJson (add_ready m c)))
       \<and> (\<forall>left. heal_write d c = FailsLeaving left \<longrightarrow> manifest_json (audiobooks w2 b) = left)"
  using assms by (cases "heal_write d c") (simp_all add: process_chunk_io_def)

lemma process_chunk_io_grows:
  assumes "process_chunk_io d e b (m, w) c = (x, m', w')"
  shows "set (ready_chunks m) \<subseteq> set (ready_chunks m')"
    and "audio (audiobooks w b) \<subseteq>\<^sub>m audio (audiobooks w' b)"
    and "\<exists>rs. tts_requests w' = tts_requests w @ rs \<and> set rs \<subseteq> {c}
           \<and> (rs \<noteq> [] \<longrightarrow> \<not> on_disk w b c \<and> \<not> listed m c)"
  using assms
  by (auto simp: process_chunk_io_def Let_def on_disk_def map_le_def
      split: if_splits write_outcome.splits tts_response.splits)

lemma stage3_loop_io_requests:
  assumes "stage3_loop_io d e b (m, w) cs = (x, m', w')"
  shows "\<exists>rs. tts_requests w' = tts_requests w @ rs
           \<and> (\<forall>r\<in>set rs. \<not> on_disk w b r \<and> \<not> listed m r)"
  using assms
proof (induction cs arbitrary: m w)
  case Nil
  then show ?case by simp
next
  case (Cons c cs)
  obtain x1 m1 w1 where step: "process_chunk_io d e b (m, w) c = (x1, m1, w1)"
    by (cases "process_chunk_io d e b (m, w) c")
  note G = process_chunk_io_grows [OF step]
  from G(3) obtain rs1 where rs1: "tts_requests w1 = tts_requests w @ rs1" "set rs1 \<subseteq> {c}"
    "rs1 \<noteq> [] \<longrightarrow> \<not> on_disk w b c \<and> \<not> listed m c" by blast
  have first: "\<forall>r\<in>set rs1. \<not> on_disk w b r \<and> \<not> listed m r" using rs1(2,3) by auto
  show ?case
  proof (cases x1)
    case (Some err)
    with Cons.prems step have "w' = w1" by simp
    with rs1(1) first show ?thesis by blast
  next
    case None
    with Cons.prems step have rest: "stage3_loop_io d e b (m1, w1) cs = (x, m', w')" by simp
    from Cons.IH [OF rest] obtain rs2 where rs2: "tts_requests w' = tts_requests w1 @ rs2"
      "\<forall>r\<in>set rs2. \<not> on_disk w1 b r \<and> \<not> listed m1 r" by blast
    have later: "\<forall>r\<in>set rs2. \<not> on_disk w b r \<and> \<not> listed m r"
      using rs2(2) on_disk_mono [OF G(2)] listed_mono [OF G(1)] by blast
    have "tts_requests w' = tts_requests w @ (rs1 @ rs2)" using rs1(1) rs2(1) by simp
    moreover have "\<forall>r\<in>set (rs1 @ rs2). \<not> on_disk w b r \<and> \<not> listed m r"
      using first later by auto
    ultimately show ?thesis by blast
  qed
qed

lemma generate_io_skips_present:
  assumes cit: "pdf_cache w name = Some (CitationJson data)"
    and present: "on_disk w (book_id data) c \<or> ledger_lists w (book_id data) c"
  shows "c \<notin> set (new_requests w (snd (generate_audio_streaming_io d e name limit w)))"
proof (cases "manifest_json (audiobooks w (book_id data)) = Some Unparseable")
  case True
  with cit have "generate_audio_streaming_io d e name limit w = (Inr None, w)"
    by (simp add: generate_audio_streaming_io_def)
  then show ?thesis by (simp add: new_requests_def)
next
  case False
  let ?b = "book_id data"
  let ?m0 = "initial_manifest data (manifest_json (audiobooks w ?b))"
  obtain x m' w' where f: "stage3_loop_io d e ?b (?m0, w) (chunks_to_process limit (chunks data)) =
      (x, m', w')"
    by (cases "stage3_loop_io d e ?b (?m0, w) (chunks_to_process limit (chunks data))")
  from cit False f have w': "snd (generate_audio_streaming_io d e name limit w) = w'"
    by (cases x) (auto simp: generate_audio_streaming_io_def split: option.splits json_file.splits)
  from stage3_loop_io_requests [OF f] obtain rs where
    rs: "tts_requests w' = tts_requests w @ rs" "\<forall>r\<in>set rs. \<not> on_disk w ?b r \<and> \<not> listed ?m0 r"
    by blast
  then have "new_requests w w' = rs" by (simp add: new_requests_def)
  with rs(2) present w' show ?thesis by (auto simp: listed_initial)
qed


lemma unlisted_world_files:
  "pdf_cache unlisted_world ''T_citation_ready.json'' = Some (CitationJson example_manifest)"
  "manifest_json (audiobooks unlisted_world (book_id example_manifest)) \<noteq> Some Unparseable"
  by (simp_all add: unlisted_world_def fresh_world_def)

text \<open>
  Claim C5, as stated, fails when the write of the ledger in the self-healing branch
  fails: the exception is caught (lines 471-472), the loop moves on, and the stage
  returns the audio directory although the ledger was not persisted. In
  \<open>unlisted_world\<close> both audio files are on disk and there is no ledger file; on a file
  system that refuses the healing writes the run posts nothing, ends normally, and leaves
  the book without a ledger file, so the chunk is still unlisted on disk.
\<close>

theorem failed_heal_write_is_not_persisted:
  "on_disk unlisted_world ''T'' chunk_C
   \<and> \<not> ledger_lists unlisted_world ''T'' chunk_C
   \<and> heal_write failing_heal_disk chunk_C = FailsLeaving None
   \<and> fst (generate_audio_streaming_io failing_heal_disk good_services
             ''T_citation_ready.json'' None unlisted_world) = Inr (Some ''T'')
   \<and> new_requests unlisted_world
        (snd (generate_audio_streaming_io failing_heal_disk good_services
                ''T_citation_ready.json'' None unlisted_world)) = []
   \<and> manifest_json (audiobooks
        (snd (generate_audio_streaming_io failing_heal_disk good_services
                ''T_citation_ready.json'' None unlisted_world)) ''T'') = None
   \<and> \<not> ledger_lists
        (snd (generate_audio_streaming_io failing_heal_disk good_services
                ''T_citation_ready.json'' None unlisted_world)) ''T'' chunk_C"
  by code_simp

text \<open>
  Claim C5, amended. The step of the loop for a chunk that is on disk and not listed
  raises nothing, posts nothing and leaves the audio files alone; the manifest in memory
  gets the record with the chunk's id, the file name \<open>chunk_<id:04d>_p<page>.wav\<close>, the
  page, the first 50 characters of the text followed by \<open>...\<close>, the start time and the
  duration, and is sorted by chunk id; the ledger file holds that manifest at once when
  the write succeeds, and is what the failed write left otherwise. In a run on a manifest
  that is read, with a ledger that is absent or parses, with distinct chunk ids and on a
  file system whose writes succeed, a chunk on disk that the ledger does not list is in the
  ledger file after the run with that record, the records of the file are sorted by chunk
  id, and the audio file is the one that was there. Whatever the writes do, a chunk that
  is on disk or listed at the start of the run is never posted to the synthesizer.
\<close>

theorem self_heal_restores_ledger_entry:
  fixes d :: disk and e :: env and limit :: "int option"
  assumes cit: "pdf_cache w name = Some (CitationJson data)"
    and led: "manifest_json (audiobooks w (book_id data)) \<noteq> Some Unparseable"
    and c: "c \<in> set (chunks_to_process limit (chunks data))"
  defines "b \<equiv> book_id data"
    and "restored \<equiv>
           \<lparr>rc_chunk_id = chunk_id c,
            filename = audio_filename c,
            rc_page = page c,
            text_snippet = take 50 (chunk_text c) @ ''...'',
            rc_start_time = start_time c,
            rc_duration_seconds = duration_seconds c\<rparr>"
    and "w' \<equiv> snd (generate_audio_streaming_io reliable_disk e name limit w)"
  shows "(\<forall>m w1. on_disk w1 b c \<and> \<not> listed m c \<longrightarrow>
            (\<exists>w2. process_chunk_io d e b (m, w1) c =
                     (None, m\<lparr>ready_chunks := sort_key rc_chunk_id (ready_chunks m @ [restored])\<rparr>, w2)
                 \<and> tts_requests w2 = tts_requests w1
                 \<and> audio (audiobooks w2 b) = audio (audiobooks w1 b)
                 \<and> (heal_write d c = Succeeds \<longrightarrow>
                      manifest_json (audiobooks w2 b) =
                        Some (LedgerJson
                          (m\<lparr>ready_chunks := sort_key rc_chunk_id (ready_chunks m @ [restored])\<rparr>)))
                 \<and> (\<forall>left. heal_write d c = FailsLeaving left \<longrightarrow>
                      manifest_json (audiobooks w2 b) = left)))
       \<and> (on_disk w b c \<and> \<not> ledger_lists w b c
            \<and> distinct (map chunk_id (chunks_to_process limit (chunks data))) \<longrightarrow>
          fst (generate_audio_streaming_io reliable_disk e name limit w) = Inr (Some b)
          \<and> restored \<in> set (ledger_ready w' b)
          \<and> sorted (map rc_chunk_id (ledger_ready w' b))
          \<and> audio (audiobooks w' b) (audio_filename c) = audio (audiobooks w b) (audio_filename c))
       \<and> (on_disk w b c \<or> ledger_lists w b c \<longrightarrow>
            c \<notin> set (new_requests w (snd (generate_audio_streaming_io d e name limit w))))"
proof -
  let ?m0 = "initial_manifest data (manifest_json (audiobooks w b))"
  let ?cs = "chunks_to_process limit (chunks data)"
  have entry: "ready_entry c = restored" by (simp add: ready_entry_def restored_def)
  have added: "add_ready m c =
      m\<lparr>ready_chunks := sort_key rc_chunk_id (ready_chunks m @ [restored])\<rparr>" for m
    by (simp add: add_ready_def entry)
  obtain m' w2 where f: "foldl (process_chunk e b) (?m0, w) ?cs = (m', w2)"
    by (cases "foldl (process_chunk e b) (?m0, w) ?cs")
  have run: "generate_audio_streaming_io reliable_disk e name limit w = (Inr (Some b), w2)"
    using generate_runs [OF cit led, of e limit] f
    by (simp add: generate_audio_streaming_io_reliable b_def)
  then have w': "w' = w2" by (simp add: w'_def)
  note G = loop_grows [OF f]
  have step: "\<exists>w2. process_chunk_io d e b (m, w1) c =
                     (None, m\<lparr>ready_chunks := sort_key rc_chunk_id (ready_chunks m @ [restored])\<rparr>, w2)
                 \<and> tts_requests w2 = tts_requests w1
                 \<and> audio (audiobooks w2 b) = audio (audiobooks w1 b)
                 \<and> (heal_write d c = Succeeds \<longrightarrow>
                      manifest_json (audiobooks w2 b) =
                        Some (LedgerJson
                          (m\<lparr>ready_chunks := sort_key rc_chunk_id (ready_chunks m @ [restored])\<rparr>)))
                 \<and> (\<forall>left. heal_write d c = FailsLeaving left \<longrightarrow>
                      manifest_json (audiobooks w2 b) = left)"
    if "on_disk w1 b c \<and> \<not> listed m c" for m w1
    using process_chunk_io_heal [of w1 b c m d e] that unfolding added by blast
  have heal: "fst (generate_audio_streaming_io reliable_disk e name limit w) = Inr (Some b)
          \<and> restored \<in> set (ledger_ready w' b)
          \<and> sorted (map rc_chunk_id (ledger_ready w' b))
          \<and> audio (audiobooks w' b) (audio_filename c) = audio (audiobooks w b) (audio_filename c)"
    if od: "on_disk w b c" and nl: "\<not> ledger_lists w b c" and dist: "distinct (map chunk_id ?cs)"
  proof -
    from nl have nl0: "\<not> listed ?m0 c" by (simp add: listed_initial)
    from loop_heals [OF f c dist od nl0]
    have e: "ready_entry c \<in> set (ready_chunks m')" and s: "in_sync b (m', w2)"
      and so: "sorted (map rc_chunk_id (ready_chunks m'))" by blast+
    from s have lr: "ledger_ready w2 b = ready_chunks m'"
      by (simp add: in_sync_def ledger_ready_def)
    from G have "audio (audiobooks w b) \<subseteq>\<^sub>m audio (audiobooks w2 b)" by blast
    with od have "audio (audiobooks w2 b) (audio_filename c) = audio (audiobooks w b) (audio_filename c)"
      by (auto simp: on_disk_def map_le_def dom_def)
    with e so lr w' run entry show ?thesis by simp
  qed
  have skip: "c \<notin> set (new_requests w (snd (generate_audio_streaming_io d e name limit w)))"
    if "on_disk w b c \<or> ledger_lists w b c"
    using generate_io_skips_present [OF cit, of c d e limit] that by (simp add: b_def)
  from step heal skip show ?thesis by blast
qed

theorem self_heal_restores_ledger_entry_witness:
  "on_disk healing_world ''T'' chunk_C \<and> \<not> ledger_lists healing_world ''T'' chunk_C
   \<and> \<lparr>rc_chunk_id = 1, filename = ''chunk_0001_p1.wav'', rc_page = 1, text_snippet = ''C...'',
       rc_start_time = 5, rc_duration_seconds = 5\<rparr>
       \<in> set (ledger_ready
        (snd (generate_audio_streaming_io reliable_disk good_services
                ''T_citation_ready.json'' None healing_world)) ''T'')
   \<and> chunk_C \<notin> set (new_requests healing_world
        (snd (generate_audio_streaming_io reliable_disk good_services
                ''T_citation_ready.json'' None healing_world)))
   \<and> audio (audiobooks
        (snd (generate_audio_streaming_io reliable_disk good_services
                ''T_citation_ready.json'' None healing_world)) ''T'')
        ''chunk_0001_p1.wav'' = Some [7]"
proof -
  let ?w' = "snd (generate_audio_streaming_io reliable_disk good_services
                ''T_citation_ready.json'' None healing_world)"
  have od: "on_disk healing_world ''T'' chunk_C" by code_simp
  have nl: "\<not> ledger_lists healing_world ''T'' chunk_C" by code_simp
  have mem: "chunk_C \<in> set (chunks_to_process None (chunks example_manifest))"
    by (simp add: chunks_to_process_def example_manifest_def)
  have dist: "distinct (map chunk_id (chunks_to_process None (chunks example_manifest)))"
    by (simp add: chunks_to_process_def example_manifest_def chunk_AB_def chunk_C_def)
  have name: "audio_filename chunk_C = ''chunk_0001_p1.wav''" by code_simp
  have before: "audio (audiobooks healing_world ''T'') ''chunk_0001_p1.wav'' = Some [7]"
    by code_simp
  have fields: "\<lparr>rc_chunk_id = chunk_id chunk_C, filename = audio_filename chunk_C,
      rc_page = page chunk_C, text_snippet = take 50 (chunk_text chunk_C) @ ''...'',
      rc_start_time = start_time chunk_C, rc_duration_seconds = duration_seconds chunk_C\<rparr> =
     \<lparr>rc_chunk_id = 1, filename = ''chunk_0001_p1.wav'', rc_page = 1, text_snippet = ''C...'',
       rc_start_time = 5, rc_duration_seconds = 5\<rparr>"
    unfolding name by (simp add: chunk_C_def)
  note T = self_heal_restores_ledger_entry [OF healing_world_files mem,
      of reliable_disk good_services, unfolded example_book]
  from T od nl dist have "\<lparr>rc_chunk_id = chunk_id chunk_C, filename = audio_filename chunk_C,
      rc_page = page chunk_C, text_snippet = take 50 (chunk_text chunk_C) @ ''...'',
      rc_start_time = start_time chunk_C, rc_duration_seconds = duration_seconds chunk_C\<rparr>
       \<in> set (ledger_ready ?w' ''T'')"
    and same: "audio (audiobooks ?w' ''T'') (audio_filename chunk_C) =
           audio (audiobooks healing_world ''T'') (audio_filename chunk_C)" by blast+
  then have listed: "\<lparr>rc_chunk_id = 1, filename = ''chunk_0001_p1.wav'', rc_page = 1,
       text_snippet = ''C...'', rc_start_time = 5, rc_duration_seconds = 5\<rparr>
       \<in> set (ledger_ready ?w' ''T'')"
    unfolding fields by blast
  from same have kept: "audio (audiobooks ?w' ''T'') ''chunk_0001_p1.wav'' = Some [7]"
    unfolding name before .
  from T od have "chunk_C \<notin> set (new_requests healing_world ?w')" by blast
  with listed kept od nl show ?thesis by blast
qed

subsection \<open>A failed request\<close>

lemma process_chunk_keeps_absent:
  assumes "process_chunk e b (m, w) d = (m', w')"
    and "chunk_id d \<noteq> chunk_id c" and "\<not> on_disk w b c" and "\<not> listed m c"
  shows "\<not> on_disk w' b c \<and> \<not> listed m' c"
proof -
  from assms(2) have fn: "audio_filename d \<noteq> audio_filename c"
    using audio_filename_inj [of d c] by blast
  from assms(1,3,4) fn assms(2) show ?thesis
    by (cases rule: process_chunk_cases [of w b d m e])
       (auto simp: on_disk_def listed_iff)
qed

lemma loop_keeps_absent:
  assumes "foldl (process_chunk e b) (m, w) ds = (m', w')"
    and "\<forall>d\<in>set ds. chunk_id d \<noteq> chunk_id c" and "\<not> on_disk w b c" and "\<not> listed m c"
  shows "\<not> on_disk w' b c \<and> \<not> listed m' c"
  using assms
proof (induction ds arbitrary: m w)
  case Nil
  then show ?case by simp
next
  case (Cons d ds)
  obtain m1 w1 where step: "process_chunk e b (m, w) d = (m1, w1)"
    by (cases "process_chunk e b (m, w) d")
  with Cons.prems(1) have rest: "foldl (process_chunk e b) (m1, w1) ds = (m', w')" by simp
  from Cons.prems(2) have d: "chunk_id d \<noteq> chunk_id c"
    and ds: "\<forall>d\<in>set ds. chunk_id d \<noteq> chunk_id c" by simp_all
  from process_chunk_keeps_absent [OF step d Cons.prems(3,4)]
  have "\<not> on_disk w1 b c" "\<not> listed m1 c" by blast+
  from Cons.IH [OF rest ds this] show ?case .
qed

text \<open>
  Claim C7. In a run of Segment Generation on a manifest that is read, with a ledger that
  is absent or parses, whatever the synthesizer answers: the stage returns the audio
  directory; every chunk of the run was posted to the synthesizer or is on disk or in the
  ledger file at the end; and when the request for a chunk fails (a response that is not
  a success, or an exception of the transport), the step changes neither the manifest
  nor any file, the run goes on with the chunks after it from that state, and, the chunk
  ids being distinct, the chunk is neither on disk nor in the ledger file at the end.
\<close>

theorem synthesis_failure_is_not_fatal:
  fixes e :: env and limit :: "int option"
  assumes cit: "pdf_cache w name = Some (CitationJson data)"
    and led: "manifest_json (audiobooks w (book_id data)) \<noteq> Some Unparseable"
  defines "b \<equiv> book_id data"
    and "cs \<equiv> chunks_to_process limit (chunks data)"
    and "m0 \<equiv> initial_manifest data (manifest_json (audiobooks w (book_id data)))"
    and "w' \<equiv> snd (generate_audio_streaming e name limit w)"
  shows "fst (generate_audio_streaming e name limit w) = Inr (Some b)
     \<and> (\<forall>c\<in>set cs. c \<in> set (new_requests w w') \<or> on_disk w' b c \<or> ledger_lists w' b c)
     \<and> (\<forall>pre c post m1 w1.
          cs = pre @ c # post \<and> foldl (process_chunk e b) (m0, w) pre = (m1, w1)
          \<and> \<not> on_disk w1 b c \<and> \<not> listed m1 c
          \<and> (\<forall>x. synthesize e (length (tts_requests w1)) (chunk_text c) \<noteq> TtsAudio x) \<longrightarrow>
            process_chunk e b (m1, w1) c = (m1, w1\<lparr>tts_requests := tts_requests w1 @ [c]\<rparr>)
            \<and> w' = snd (foldl (process_chunk e b)
                          (m1, w1\<lparr>tts_requests := tts_requests w1 @ [c]\<rparr>) post)
            \<and> (distinct (map chunk_id cs) \<longrightarrow> \<not> on_disk w' b c \<and> \<not> ledger_lists w' b c))"
proof -
  obtain m' w2 where f: "foldl (process_chunk e b) (m0, w) cs = (m', w2)"
    by (cases "foldl (process_chunk e b) (m0, w) cs")
  have gen: "generate_audio_streaming e name limit w = (Inr (Some b), w2)"
    using generate_runs [OF cit led, of e limit] f by (simp add: b_def cs_def m0_def)
  then have w': "w' = w2" by (simp add: w'_def)
  have sync0: "ready_chunks m0 = ledger_ready w b"
    by (simp add: m0_def b_def initial_manifest_ready)
  with loop_grows [OF f] have sync: "ready_chunks m' = ledger_ready w2 b" by blast
  have completes: "fst (generate_audio_streaming e name limit w) = Inr (Some b)"
    by (simp add: gen)
  have all: "c \<in> set (new_requests w w') \<or> on_disk w' b c \<or> ledger_lists w' b c"
    if "c \<in> set cs" for c
    using loop_attempts_all [OF f that] sync w' by (simp add: listed_iff ledger_lists_def)
  have fail: "process_chunk e b (m1, w1) c = (m1, w1\<lparr>tts_requests := tts_requests w1 @ [c]\<rparr>)
            \<and> w' = snd (foldl (process_chunk e b)
                          (m1, w1\<lparr>tts_requests := tts_requests w1 @ [c]\<rparr>) post)
            \<and> (distinct (map chunk_id cs) \<longrightarrow> \<not> on_disk w' b c \<and> \<not> ledger_lists w' b c)"
    if split: "cs = pre @ c # post" and pre: "foldl (process_chunk e b) (m0, w) pre = (m1, w1)"
      and nd: "\<not> on_disk w1 b c" and nl: "\<not> listed m1 c"
      and bad: "\<forall>x. synthesize e (length (tts_requests w1)) (chunk_text c) \<noteq> TtsAudio x"
    for pre c post m1 w1
  proof -
    let ?w1 = "w1\<lparr>tts_requests := tts_requests w1 @ [c]\<rparr>"
    have step: "process_chunk e b (m1, w1) c = (m1, ?w1)"
      by (rule process_chunk_failure [OF nd nl bad])
    have rest: "foldl (process_chunk e b) (m1, ?w1) post = (m', w2)"
      using f pre step by (simp add: split)
    then have fin: "w' = snd (foldl (process_chunk e b) (m1, ?w1) post)" by (simp add: w')
    have absent: "\<not> on_disk w' b c \<and> \<not> ledger_lists w' b c" if "distinct (map chunk_id cs)"
    proof -
      from that split have "chunk_id c \<notin> chunk_id ` set post" by auto
      then have others: "\<forall>d\<in>set post. chunk_id d \<noteq> chunk_id c" by (metis imageI)
      from nd have nd1: "\<not> on_disk ?w1 b c" by (simp add: on_disk_def)
      from loop_keeps_absent [OF rest others nd1 nl] sync w' show ?thesis
        by (simp add: listed_iff ledger_lists_def)
    qed
    from step fin absent show ?thesis by blast
  qed
  from completes all fail show ?thesis by blast
qed

lemma fresh_world_files:
  "pdf_cache fresh_world ''T_citation_ready.json'' = Some (CitationJson example_manifest)"
  "manifest_json (audiobooks fresh_world (book_id example_manifest)) \<noteq> Some Unparseable"
  by (simp_all add: fresh_world_def empty_dir_def)

theorem synthesis_failure_is_not_fatal_witness:
  "fst (generate_audio_streaming flaky_services ''T_citation_ready.json'' None fresh_world) =
     Inr (Some ''T'')
   \<and> \<not> on_disk (snd (generate_audio_streaming flaky_services ''T_citation_ready.json'' None
         fresh_world)) ''T'' chunk_AB
   \<and> \<not> ledger_lists (snd (generate_audio_streaming flaky_services ''T_citation_ready.json'' None
         fresh_world)) ''T'' chunk_AB
   \<and> map rc_chunk_id (ledger_ready (snd (generate_audio_streaming flaky_services
         ''T_citation_ready.json'' None fresh_world)) ''T'') = [1]
   \<and> tts_requests (snd (generate_audio_streaming flaky_services ''T_citation_ready.json'' None
         fresh_world)) = [chunk_AB, chunk_C]"
proof -
  let ?w' = "snd (generate_audio_streaming flaky_services ''T_citation_ready.json'' None fresh_world)"
  let ?m0 = "initial_manifest example_manifest (manifest_json (audiobooks fresh_world ''T''))"
  note T = synthesis_failure_is_not_fatal [OF fresh_world_files, of flaky_services None,
      unfolded example_book]
  have cs: "chunks_to_process None (chunks example_manifest) = [] @ chunk_AB # [chunk_C]"
    by (simp add: chunks_to_process_def example_manifest_def)
  have pre: "foldl (process_chunk flaky_services ''T'') (?m0, fresh_world) [] = (?m0, fresh_world)"
    by simp
  have nd: "\<not> on_disk fresh_world ''T'' chunk_AB" by code_simp
  have nl: "\<not> listed ?m0 chunk_AB" by code_simp
  have bad: "\<forall>x. synthesize flaky_services (length (tts_requests fresh_world)) (chunk_text chunk_AB)
      \<noteq> TtsAudio x"
    by (simp add: flaky_services_def fresh_world_def)
  have dist: "distinct (map chunk_id (chunks_to_process None (chunks example_manifest)))"
    by (simp add: chunks_to_process_def example_manifest_def chunk_AB_def chunk_C_def)
  from T have a: "fst (generate_audio_streaming flaky_services ''T_citation_ready.json'' None fresh_world) =
     Inr (Some ''T'')" by blast
  from T have "chunks_to_process None (chunks example_manifest) = [] @ chunk_AB # [chunk_C]
      \<and> foldl (process_chunk flaky_services ''T'') (?m0, fresh_world) [] = (?m0, fresh_world)
      \<and> \<not> on_disk fresh_world ''T'' chunk_AB \<and> \<not> listed ?m0 chunk_AB
      \<and> (\<forall>x. synthesize flaky_services (length (tts_requests fresh_world)) (chunk_text chunk_AB)
             \<noteq> TtsAudio x) \<longrightarrow>
      (distinct (map chunk_id (chunks_to_process None (chunks example_manifest))) \<longrightarrow>
        \<not> on_disk ?w' ''T'' chunk_AB \<and> \<not> ledger_lists ?w' ''T'' chunk_AB)"
    by blast
  with cs pre nd nl bad dist
  have b: "\<not> on_disk ?w' ''T'' chunk_AB \<and> \<not> ledger_lists ?w' ''T'' chunk_AB" by blast
  have c: "map rc_chunk_id (ledger_ready ?w' ''T'') = [1]" by code_simp
  have d: "tts_requests ?w' = [chunk_AB, chunk_C]" by code_simp
  from a b c d show ?thesis by blast
qed

subsection \<open>The orchestrator\<close>

lemma cache_names_differ: "a @ ''_raw.json'' \<noteq> b @ ''_citation_ready.json''"
proof
  assume "a @ ''_raw.json'' = b @ ''_citation_ready.json''"
  then have "rev (a @ ''_raw.json'') = rev (b @ ''_citation_ready.json'')" by simp
  then show False by simp
qed

lemma pipeline_cache_hit:
  assumes "citation_cache_hit w f = Some n"
  shows "run_full_pipeline e f w =
           (case generate_audio_streaming e n None w of
              (Inl err, w3) \<Rightarrow> (Inl err, w3)
            | (Inr r, w3) \<Rightarrow> (Inr Finished, w3))"
  using assms by (simp add: run_full_pipeline_def)

lemma pipeline_snd_generate:
  "snd (case generate_audio_streaming e n None w of
          (Inl err, w3) \<Rightarrow> (Inl err, w3)
        | (Inr r, w3) \<Rightarrow> (Inr Finished :: py_error + outcome, w3)) =
   snd (generate_audio_streaming e n None w)"
  by (cases "generate_audio_streaming e n None w") (auto split: sum.splits)

lemma pipeline_no_pdf:
  assumes "citation_cache_hit w f = None" and "pdf_input w f = None"
  shows "run_full_pipeline e f w = (Inr HaltedStage1, w)"
  using assms by (simp add: run_full_pipeline_def process_pdf_def)

lemma pipeline_extraction_fails:
  assumes "citation_cache_hit w f = None" and "pdf_input w f = Some pdf"
    and "extract_document e f pdf = None"
  shows "run_full_pipeline e f w =
           (Inr HaltedStage1, w\<lparr>extractor_calls := extractor_calls w @ [f]\<rparr>)"
  using assms by (simp add: run_full_pipeline_def process_pdf_def Let_def)

lemma pipeline_extracts:
  assumes "citation_cache_hit w f = None" and "pdf_input w f = Some pdf"
    and "extract_document e f pdf = Some out"
  defines "m \<equiv> build_citation_data 400 (str_replace ''_raw'' [] (stem (stem f @ ''_raw.json''))) out"
  defines "w2 \<equiv> w\<lparr>extractor_calls := extractor_calls w @ [f],
                     pdf_cache := (pdf_cache w)
                       (stem f @ ''_raw.json'' \<mapsto> RawCacheJson out,
                        book_id m @ ''_citation_ready.json'' \<mapsto> CitationJson m)\<rparr>"
  shows "snd (run_full_pipeline e f w) =
           snd (generate_audio_streaming e (book_id m @ ''_citation_ready.json'') None w2)"
  using assms(1-3) unfolding m_def w2_def
  by (simp add: run_full_pipeline_def process_pdf_def prepare_tts_chunks_with_citations_def
      Let_def pipeline_snd_generate)

text \<open>
  Claim C8, as stated, fails. In \<open>stale_cache_world\<close> the raw extraction cache of
  \<open>book.pdf\<close> exists and there is no citation manifest for the derived book id; the
  orchestrator nevertheless hands the document to the extractor, writes the new
  extraction over the cache, and chunks the new extraction, not the cached one.
\<close>

theorem existing_raw_cache_is_not_reused:
  "pdf_cache stale_cache_world ''book_raw.json'' = Some (RawCacheJson example_data)
   \<and> citation_cache_hit stale_cache_world ''book.pdf'' = None
   \<and> extractor_calls stale_cache_world = []
   \<and> extractor_calls (snd (run_full_pipeline extracting_services ''book.pdf'' stale_cache_world)) =
       [''book.pdf'']
   \<and> pdf_cache (snd (run_full_pipeline extracting_services ''book.pdf'' stale_cache_world))
       ''book_raw.json'' = Some (RawCacheJson new_extraction)
   \<and> pdf_cache (snd (run_full_pipeline extracting_services ''book.pdf'' stale_cache_world))
       ''A_Book_Vol_1_citation_ready.json'' =
       Some (CitationJson (build_citation_data 400 ''book'' new_extraction))
   \<and> build_citation_data 400 ''book'' new_extraction \<noteq> build_citation_data 400 ''book'' example_data"
  by code_simp

text \<open>
  Claim C8, amended. When the orchestrator finds no citation manifest for the derived
  book id (or cannot derive the id) and the document is in the input directory, it runs
  Extraction whether or not a raw extraction cache exists: the extractor is called once,
  and when it succeeds the raw cache is overwritten with its result and the citation
  manifest is built from that result. When the document is missing the pipeline halts at
  Stage 1 with the world unchanged. Extraction and Chunking are skipped, both together,
  exactly when the citation manifest is found: then the cache directory is left as it is
  and only Segment Generation runs.
\<close>

theorem missing_manifest_reruns_extraction:
  "(\<forall>pdf. citation_cache_hit w f = None \<and> pdf_input w f = Some pdf \<longrightarrow>
      extractor_calls (snd (run_full_pipeline e f w)) = extractor_calls w @ [f]
      \<and> (\<forall>out. extract_document e f pdf = Some out \<longrightarrow>
           pdf_cache (snd (run_full_pipeline e f w)) (stem f @ ''_raw.json'') =
             Some (RawCacheJson out)
           \<and> pdf_cache (snd (run_full_pipeline e f w))
               (book_id (build_citation_data 400
                  (str_replace ''_raw'' [] (stem (stem f @ ''_raw.json''))) out)
                @ ''_citation_ready.json'') =
               Some (CitationJson (build_citation_data 400
                  (str_replace ''_raw'' [] (stem (stem f @ ''_raw.json''))) out))))
   \<and> (citation_cache_hit w f = None \<and> pdf_input w f = None \<longrightarrow>
        run_full_pipeline e f w = (Inr HaltedStage1, w))
   \<and> (\<forall>n. citation_cache_hit w f = Some n \<longrightarrow>
        extractor_calls (snd (run_full_pipeline e f w)) = extractor_calls w
        \<and> pdf_cache (snd (run_full_pipeline e f w)) = pdf_cache w
        \<and> snd (run_full_pipeline e f w) = snd (generate_audio_streaming e n None w))"
proof -
  let ?w' = "snd (run_full_pipeline e f w)"
  let ?m = "\<lambda>out. build_citation_data 400
                  (str_replace ''_raw'' [] (stem (stem f @ ''_raw.json''))) out"
  have miss: "extractor_calls ?w' = extractor_calls w @ [f]
            \<and> (\<forall>out. extract_document e f pdf = Some out \<longrightarrow>
                 pdf_cache ?w' (stem f @ ''_raw.json'') = Some (RawCacheJson out)
                 \<and> pdf_cache ?w' (book_id (?m out) @ ''_citation_ready.json'') =
                     Some (CitationJson (?m out)))"
    if hit: "citation_cache_hit w f = None" and pdf: "pdf_input w f = Some pdf" for pdf
  proof (cases "extract_document e f pdf")
    case None
    from pipeline_extraction_fails [OF hit pdf None] None show ?thesis by simp
  next
    case (Some out)
    note K = generate_keeps_cache [of e _ None]
    from pipeline_extracts [OF hit pdf Some] K Some show ?thesis
      by (simp add: cache_names_differ)
  qed
  have nopdf: "run_full_pipeline e f w = (Inr HaltedStage1, w)"
    if "citation_cache_hit w f = None" "pdf_input w f = None"
    by (rule pipeline_no_pdf [OF that])
  have hit: "extractor_calls ?w' = extractor_calls w \<and> pdf_cache ?w' = pdf_cache w
            \<and> ?w' = snd (generate_audio_streaming e n None w)"
    if "citation_cache_hit w f = Some n" for n
    using generate_keeps_cache [of e n None w]
    by (simp add: pipeline_cache_hit [OF that] pipeline_snd_generate)
  from miss nopdf hit show ?thesis by blast
qed

theorem missing_manifest_reruns_extraction_witness:
  "citation_cache_hit stale_cache_world ''book.pdf'' = None
   \<and> pdf_input stale_cache_world ''book.pdf'' = Some [37, 80, 68, 70]
   \<and> pdf_cache stale_cache_world (stem ''book.pdf'' @ ''_raw.json'') \<noteq> None
   \<and> extractor_calls (snd (run_full_pipeline extracting_services ''book.pdf'' stale_cache_world)) =
       extractor_calls stale_cache_world @ [''book.pdf'']
   \<and> pdf_cache (snd (run_full_pipeline extracting_services ''book.pdf'' stale_cache_world))
       (stem ''book.pdf'' @ ''_raw.json'') = Some (RawCacheJson new_extraction)"
proof -
  have hit: "citation_cache_hit stale_cache_world ''book.pdf'' = None" by code_simp
  have pdf: "pdf_input stale_cache_world ''book.pdf'' = Some [37, 80, 68, 70]"
    by (simp add: stale_cache_world_def)
  have old: "pdf_cache stale_cache_world (stem ''book.pdf'' @ ''_raw.json'') \<noteq> None"
    by code_simp
  have ext: "extract_document extracting_services ''book.pdf'' [37, 80, 68, 70] = Some new_extraction"
    by (simp add: extracting_services_def)
  note T = missing_manifest_reruns_extraction [of stale_cache_world "''book.pdf''" extracting_services]
  from T hit pdf
  have a: "extractor_calls (snd (run_full_pipeline extracting_services ''book.pdf'' stale_cache_world)) =
       extractor_calls stale_cache_world @ [''book.pdf'']" by blast
  from T hit pdf ext
  have b: "pdf_cache (snd (run_full_pipeline extracting_services ''book.pdf'' stale_cache_world))
       (stem ''book.pdf'' @ ''_raw.json'') = Some (RawCacheJson new_extraction)" by blast
  from hit pdf old a b show ?thesis by blast
qed

end
